theory Spec2Isabelle
  imports Main "HOL-Library.AList"
begin

section \<open>Python values\<close>

text \<open>
  Exceptions are values. \<open>Raised n\<close> stands for an exception instance raised by user
  code (a receiver or a \<open>settings_property\<close> function), numbered by \<open>n\<close>; user code
  can raise the built-in ones as well. Every constructor is an instance of a subclass of
  Python's \<open>Exception\<close>, which is what \<open>send_robust\<close> catches and what the spec calls an
  error; exits that are not (\<open>SystemExit\<close>, \<open>KeyboardInterrupt\<close>) are not part of
  the model.
\<close>

datatype exn =
    ImproperlyConfigured
  | AttributeError
  | KeyError
  | IndexError
  | TypeError
  | NameError
  | OSError
  | Raised nat

text \<open>
  A settings value: what \<open>json.load\<close> returns (None, booleans, numbers, strings, lists,
  dicts), an \<open>ExpandedString\<close> (the \<open>str\<close> subclass that tags a string as already
  expanded), or a function decorated with \<open>settings_property\<close>, known by its identity.
  A dict is an association list in insertion order, as Python keeps it.
\<close>

datatype val =
    VNone
  | VBool bool
  | VInt int
  | VStr string
  | VExpanded string
  | VList "val list"
  | VDict "(string \<times> val) list"
  | VFunc nat

type_synonym container = "(string \<times> val) list"

text \<open>\<open>d[k] = v\<close> and \<open>d[k]\<close> of a Python dict.\<close>

definition setitem :: "container \<Rightarrow> string \<Rightarrow> val \<Rightarrow> container" where
  "setitem d k v = AList.update k v d"

definition getitem :: "container \<Rightarrow> string \<Rightarrow> exn + val" where
  "getitem d k = (case map_of d k of None \<Rightarrow> Inl KeyError | Some v \<Rightarrow> Inr v)"

text \<open>\<open>name.endswith(suffix)\<close> and \<open>any(name.endswith(p) for p in suffixes)\<close>.\<close>

definition endswith :: "string \<Rightarrow> string \<Rightarrow> bool" where
  "endswith name suffix =
     (length suffix \<le> length name \<and> drop (length name - length suffix) name = suffix)"

definition filename_suffixes :: "string list" where
  "filename_suffixes = [''_file'', ''_files'', ''_dir'', ''_dirs'', ''_path'', ''_paths'']"

definition json_include_suffixes :: "string list" where
  "json_include_suffixes = [''_json'']"

definition any_endswith :: "string \<Rightarrow> string list \<Rightarrow> bool" where
  "any_endswith name suffixes = list_ex (endswith name) suffixes"

section \<open>The helpers of \<open>vsi.tools.python\<close>\<close>

text \<open>
  Modelled from the spec: \<open>nested_update\<close>, which \<open>settings.py\<close> imports from
  \<open>vsi.tools.python\<close>; that module is not among the sources. The spec (data model,
  ValueContainer): "nested merges are performed key-by-key, recursively, never
  wholesale-replacing a nested container unless the incoming value at that key is a
  scalar". So an incoming scalar is stored at its key, whatever was there; an incoming
  container is merged into the container already at the key, or into a fresh one when the
  key is absent. The spec does not say what merging a container into a stored scalar
  gives: there is nothing to recurse into, and the model makes it the merge error
  (\<open>TypeError\<close>) that \<open>configure\<close> can raise.
\<close>

function nested_update :: "container \<Rightarrow> container \<Rightarrow> exn + container" where
  "nested_update d [] = Inr d"
| "nested_update d ((k, v) # rest) =
     (case v of
        VDict sub \<Rightarrow>
          (case map_of d k of
             None \<Rightarrow>
               (case nested_update [] sub of
                  Inl e \<Rightarrow> Inl e
                | Inr m \<Rightarrow> nested_update (setitem d k (VDict m)) rest)
           | Some (VDict old) \<Rightarrow>
               (case nested_update old sub of
                  Inl e \<Rightarrow> Inl e
                | Inr m \<Rightarrow> nested_update (setitem d k (VDict m)) rest)
           | Some _ \<Rightarrow> Inl TypeError)
      | _ \<Rightarrow> nested_update (setitem d k v) rest)"
  by pat_completeness auto
termination
  by (relation "measure (\<lambda>(d, u). size_list (size_prod (\<lambda>_. 0) size) u)") auto

text \<open>
  Python compares an \<open>ExpandedString\<close> with a \<open>str\<close> by content; \<open>untag\<close> drops the
  tag so that equal leaves are equal values.
\<close>

fun untag :: "val \<Rightarrow> val" where
  "untag (VExpanded s) = VStr s"
| "untag v = v"

text \<open>
  Modelled from the spec: \<open>nested_in_dict\<close>, also of \<open>vsi.tools.python\<close>. The spec
  (Template Engine): pattern containment is the "deep, recursive 'is this sub-structure
  present with equal leaf values'" test: every key of the pattern is a key of the
  container, a nested pattern is contained in the nested container at its key, and a
  leaf of the pattern equals the value at its key.
\<close>

function nested_in_dict :: "container \<Rightarrow> container \<Rightarrow> bool" where
  "nested_in_dict [] c = True"
| "nested_in_dict ((k, v) # rest) c =
     (case map_of c k of
        None \<Rightarrow> False
      | Some w \<Rightarrow>
          (case v of
             VDict sub \<Rightarrow>
               (case w of
                  VDict csub \<Rightarrow> nested_in_dict sub csub \<and> nested_in_dict rest c
                | _ \<Rightarrow> False)
           | _ \<Rightarrow> untag w = untag v \<and> nested_in_dict rest c))"
  by pat_completeness auto
termination
  by (relation "measure (\<lambda>(p, c). size_list (size_prod (\<lambda>_. 0) size) p)") auto

text \<open>
  The key invariant of the data model: the keys of a dict are unique, at every depth.
\<close>

fun wf_val :: "val \<Rightarrow> bool" where
  "wf_val (VDict c) = (distinct (map fst c) \<and> list_all (\<lambda>kv. wf_val (snd kv)) c)"
| "wf_val v = True"

definition unique_keys :: "container \<Rightarrow> bool" where
  "unique_keys c = wf_val (VDict c)"

text \<open>
  The value at a path of keys, and the leaves: the values that are not dicts.
\<close>

fun lookup_path :: "val \<Rightarrow> string list \<Rightarrow> val option" where
  "lookup_path v [] = Some v"
| "lookup_path (VDict c) (k # p) =
     (case map_of c k of None \<Rightarrow> None | Some v \<Rightarrow> lookup_path v p)"
| "lookup_path v (k # p) = None"

fun is_leaf :: "val \<Rightarrow> bool" where
  "is_leaf (VDict c) = False"
| "is_leaf v = True"

definition leaf_at :: "container \<Rightarrow> string list \<Rightarrow> bool" where
  "leaf_at c p = (case lookup_path (VDict c) p of None \<Rightarrow> False | Some v \<Rightarrow> is_leaf v)"

text \<open>
  A leaf of the defaults is shadowed by the container when the container holds a leaf at
  a proper prefix of its path: the place where the defaults nest a dict is taken by a
  scalar of the user's.
\<close>

definition shadowed :: "container \<Rightarrow> string list \<Rightarrow> bool" where
  "shadowed c p = list_ex (\<lambda>n. leaf_at c (take n p)) [1 ..< length p]"

section \<open>The signal dispatcher (\<open>signals.py\<close>)\<close>

text \<open>
  Python objects that the dispatcher handles are known by their identity: \<open>Obj i\<close> is
  the object with \<open>id\<close> \<open>i\<close>, \<open>BoundMethod s f\<close> a bound method (it has \<open>__self__\<close> and
  \<open>__func__\<close>, with these ids), \<open>PyNone\<close> is \<open>None\<close>. The elements of a lookup key are
  Python values compared by value: integers (ids, or a \<open>dispatch_uid\<close> that is an integer),
  pairs of ids, or strings. \<open>id(None)\<close> is a fixed integer; the model takes 0, which no
  \<open>Obj\<close> is meant to have.
\<close>

datatype pyobj = PyNone | Obj int | BoundMethod int int

datatype keypart = KInt int | KPair int int | KStr string

type_synonym lookup_key = "keypart \<times> keypart"

fun make_id :: "pyobj \<Rightarrow> keypart" where
  "make_id (BoundMethod s f) = KPair s f"
| "make_id (Obj i) = KInt i"
| "make_id PyNone = KInt 0"

definition NONE_ID :: keypart where
  "NONE_ID = make_id PyNone"

text \<open>
  The \<open>dispatch_uid\<close> argument: absent (\<open>None\<close>), a string or an integer. \<open>if
  dispatch_uid:\<close> tests its truth value, so the empty string and 0 count as absent.
\<close>

datatype uid = NoUid | UidStr string | UidInt int

fun truthy :: "uid \<Rightarrow> bool" where
  "truthy NoUid = False"
| "truthy (UidStr s) = (s \<noteq> [])"
| "truthy (UidInt i) = (i \<noteq> 0)"

fun uid_key :: "uid \<Rightarrow> keypart" where
  "uid_key (UidStr s) = KStr s"
| "uid_key (UidInt i) = KInt i"
| "uid_key NoUid = NONE_ID"  \<comment> \<open>never asked for: \<open>NoUid\<close> is not truthy\<close>

definition lookup_key_of :: "pyobj \<Rightarrow> pyobj \<Rightarrow> uid \<Rightarrow> lookup_key" where
  "lookup_key_of receiver sender dispatch_uid =
     (if truthy dispatch_uid then (uid_key dispatch_uid, make_id sender)
      else (make_id receiver, make_id sender))"

text \<open>
  A stored receiver is the receiver itself or a weak reference to it (\<open>weakref.ref\<close>,
  \<open>WeakMethod\<close>). Whether a referent is still reachable is the heap's business: the
  operations take it as the predicate \<open>alive\<close>.
\<close>

datatype rref = Strong pyobj | WeakRef pyobj

fun is_weak :: "rref \<Rightarrow> bool" where
  "is_weak (WeakRef r) = True"
| "is_weak (Strong r) = False"

fun referent :: "rref \<Rightarrow> pyobj" where
  "referent (WeakRef r) = r"
| "referent (Strong r) = r"

datatype cache_entry = NO_RECEIVERS | Cached "rref list"

text \<open>
  The fields of a \<open>Signal\<close>. The cache is a dictionary keyed by sender: a plain
  \<open>dict\<close>, or with \<open>use_caching\<close> a \<open>WeakKeyDictionary\<close>. The lock is left out: the
  model runs one operation at a time.
\<close>

record signal =
  receivers :: "(lookup_key \<times> rref) list"
  use_caching :: bool
  sender_receivers_cache :: "pyobj \<Rightarrow> cache_entry option"
  dead_receivers :: bool

definition Signal_init :: "bool \<Rightarrow> signal" where
  "Signal_init caching =
     \<lparr>receivers = [], use_caching = caching,
      sender_receivers_cache = (\<lambda>_. None), dead_receivers = False\<rparr>"

text \<open>
  A dict takes only hashable keys, and a \<open>WeakKeyDictionary\<close> only keys that can also be
  weakly referenced, which \<open>None\<close> (like a number or a string) cannot: looking up or
  storing another sender raises \<open>TypeError\<close>. What the type of an object allows is given
  by \<open>kind\<close>.
\<close>

datatype key_kind = Unhashable | Hashable | WeakReferenceable

definition cache_refuses :: "(pyobj \<Rightarrow> key_kind) \<Rightarrow> signal \<Rightarrow> pyobj \<Rightarrow> bool" where
  "cache_refuses kind s sender =
     (kind sender = Unhashable
      \<or> (use_caching s \<and> (sender = PyNone \<or> kind sender \<noteq> WeakReferenceable)))"

definition cache_get ::
  "(pyobj \<Rightarrow> key_kind) \<Rightarrow> signal \<Rightarrow> pyobj \<Rightarrow> exn + cache_entry option" where
  "cache_get kind s sender =
     (if cache_refuses kind s sender then Inl TypeError
      else Inr (sender_receivers_cache s sender))"

definition is_dead :: "(pyobj \<Rightarrow> bool) \<Rightarrow> rref \<Rightarrow> bool" where
  "is_dead alive r = (is_weak r \<and> \<not> alive (referent r))"

definition clear_dead_receivers :: "(pyobj \<Rightarrow> bool) \<Rightarrow> signal \<Rightarrow> signal" where
  "clear_dead_receivers alive s =
     (if dead_receivers s
      then s\<lparr>dead_receivers := False,
             receivers := filter (\<lambda>r. \<not> is_dead alive (snd r)) (receivers s)\<rparr>
      else s)"

text \<open>
  \<open>_remove_receiver\<close> is the finalizer that \<open>connect\<close> registers for a weakly held
  receiver: the garbage collector calls it when the referent goes away.
\<close>

definition remove_receiver :: "signal \<Rightarrow> signal" where
  "remove_receiver s = s\<lparr>dead_receivers := True\<rparr>"

definition connect ::
  "(pyobj \<Rightarrow> bool) \<Rightarrow> signal \<Rightarrow> pyobj \<Rightarrow> pyobj \<Rightarrow> bool \<Rightarrow> uid \<Rightarrow> signal" where
  "connect alive s receiver sender weak dispatch_uid =
     (let lookup_key = lookup_key_of receiver sender dispatch_uid;
          r = (if weak then WeakRef receiver else Strong receiver);
          s1 = clear_dead_receivers alive s;
          s2 = (if \<not> list_ex (\<lambda>e. fst e = lookup_key) (receivers s1)
                then s1\<lparr>receivers := receivers s1 @ [(lookup_key, r)]\<rparr>
                else s1)
      in s2\<lparr>sender_receivers_cache := (\<lambda>_. None)\<rparr>)"

text \<open>The loop of \<open>disconnect\<close>: delete the first entry with the key.\<close>

fun delete_first :: "lookup_key \<Rightarrow> (lookup_key \<times> rref) list \<Rightarrow> bool \<times> (lookup_key \<times> rref) list" where
  "delete_first key [] = (False, [])"
| "delete_first key (e # es) =
     (if fst e = key then (True, es)
      else (case delete_first key es of (found, es') \<Rightarrow> (found, e # es')))"

definition disconnect ::
  "(pyobj \<Rightarrow> bool) \<Rightarrow> signal \<Rightarrow> pyobj \<Rightarrow> pyobj \<Rightarrow> uid \<Rightarrow> bool \<times> signal" where
  "disconnect alive s receiver sender dispatch_uid =
     (let lookup_key = lookup_key_of receiver sender dispatch_uid;
          s1 = clear_dead_receivers alive s;
          (disconnected, rs) = delete_first lookup_key (receivers s1)
      in (disconnected, s1\<lparr>receivers := rs, sender_receivers_cache := (\<lambda>_. None)\<rparr>))"

text \<open>
  \<open>_live_receivers\<close>: the qualifying receivers of a sender, dereferenced, or the error
  of the cache, and the signal as the call leaves it (dead entries swept, the cache
  filled).
\<close>

definition qualifying :: "pyobj \<Rightarrow> (lookup_key \<times> rref) list \<Rightarrow> rref list" where
  "qualifying sender rs =
     map snd (filter (\<lambda>e. snd (fst e) = NONE_ID \<or> snd (fst e) = make_id sender) rs)"

definition deref :: "(pyobj \<Rightarrow> bool) \<Rightarrow> rref list \<Rightarrow> pyobj list" where
  "deref alive rs = map referent (filter (\<lambda>r. \<not> is_dead alive r) rs)"

definition live_receivers ::
  "(pyobj \<Rightarrow> key_kind) \<Rightarrow> (pyobj \<Rightarrow> bool) \<Rightarrow> signal \<Rightarrow> pyobj
     \<Rightarrow> (exn + pyobj list) \<times> signal" where
  "live_receivers kind alive s sender =
     (case (if use_caching s \<and> \<not> dead_receivers s
            then cache_get kind s sender else Inr None) of
        Inl e \<Rightarrow> (Inl e, s)
      | Inr (Some NO_RECEIVERS) \<Rightarrow> (Inr [], s)
      | Inr (Some (Cached rs)) \<Rightarrow> (Inr (deref alive rs), s)
      | Inr None \<Rightarrow>
          (let s1 = clear_dead_receivers alive s;
               rs = qualifying sender (receivers s1)
           in if use_caching s1
              then (if cache_refuses kind s1 sender then (Inl TypeError, s1)
                    else (Inr (deref alive rs),
                          s1\<lparr>sender_receivers_cache :=
                                (sender_receivers_cache s1)
                                  (sender := Some (if rs = [] then NO_RECEIVERS else Cached rs))\<rparr>))
              else (Inr (deref alive rs), s1)))"

definition has_listeners ::
  "(pyobj \<Rightarrow> key_kind) \<Rightarrow> (pyobj \<Rightarrow> bool) \<Rightarrow> signal \<Rightarrow> pyobj \<Rightarrow> (exn + bool) \<times> signal" where
  "has_listeners kind alive s sender =
     (case live_receivers kind alive s sender of
        (Inl e, s') \<Rightarrow> (Inl e, s')
      | (Inr live, s') \<Rightarrow> (Inr (live \<noteq> []), s'))"

text \<open>
  The process environment is \<open>os.environ\<close>; \<open>TERRA_UNITTEST\<close> set to \<open>1\<close> turns
  \<open>send\<close> and \<open>send_robust\<close> off. The test at the head of both, \<open>not self.receivers
  or self.sender_receivers_cache.get(sender) is NO_RECEIVERS or
  os.environ.get('TERRA_UNITTEST') == "1"\<close>, is evaluated left to right: with receivers
  present the cache is looked up, which may raise.
\<close>

definition unittest_mode :: "(string \<Rightarrow> string option) \<Rightarrow> bool" where
  "unittest_mode environ = (environ ''TERRA_UNITTEST'' = Some ''1'')"

definition fast_exit ::
  "(string \<Rightarrow> string option) \<Rightarrow> (pyobj \<Rightarrow> key_kind) \<Rightarrow> signal \<Rightarrow> pyobj \<Rightarrow> exn + bool" where
  "fast_exit environ kind s sender =
     (if receivers s = [] then Inr True
      else (case cache_get kind s sender of
              Inl e \<Rightarrow> Inl e
            | Inr entry \<Rightarrow> Inr (entry = Some NO_RECEIVERS \<or> unittest_mode environ)))"

text \<open>
  Calling a receiver returns its response or raises: \<open>call r\<close> is the outcome of
  \<open>r(signal=self, sender=sender, **named)\<close>. Besides the result, the dispatch loops
  give the receivers they invoked, in order. The list comprehension of \<open>send\<close> stops at
  the first receiver that raises; the loop of \<open>send_robust\<close> catches the exception and
  records it in the receiver's place.
\<close>

fun dispatch :: "(pyobj \<Rightarrow> exn + 'r) \<Rightarrow> pyobj list \<Rightarrow> (exn + (pyobj \<times> 'r) list) \<times> pyobj list" where
  "dispatch call [] = (Inr [], [])"
| "dispatch call (r # rs) =
     (case call r of
        Inl e \<Rightarrow> (Inl e, [r])
      | Inr v \<Rightarrow>
          (case dispatch call rs of
             (Inl e, invoked) \<Rightarrow> (Inl e, r # invoked)
           | (Inr responses, invoked) \<Rightarrow> (Inr ((r, v) # responses), r # invoked)))"

fun dispatch_robust :: "(pyobj \<Rightarrow> exn + 'r) \<Rightarrow> pyobj list \<Rightarrow> (pyobj \<times> (exn + 'r)) list \<times> pyobj list" where
  "dispatch_robust call [] = ([], [])"
| "dispatch_robust call (r # rs) =
     (case dispatch_robust call rs of
        (responses, invoked) \<Rightarrow> ((r, call r) # responses, r # invoked))"

text \<open>
  \<open>send\<close> and \<open>send_robust\<close>: what the call returns or raises, the receivers it
  invoked, and the signal as it leaves it.
\<close>

definition send ::
  "(string \<Rightarrow> string option) \<Rightarrow> (pyobj \<Rightarrow> key_kind) \<Rightarrow> (pyobj \<Rightarrow> bool)
     \<Rightarrow> (pyobj \<Rightarrow> exn + 'r) \<Rightarrow> signal \<Rightarrow> pyobj
     \<Rightarrow> ((exn + (pyobj \<times> 'r) list) \<times> pyobj list) \<times> signal" where
  "send environ kind alive call s sender =
     (case fast_exit environ kind s sender of
        Inl e \<Rightarrow> ((Inl e, []), s)
      | Inr True \<Rightarrow> ((Inr [], []), s)
      | Inr False \<Rightarrow>
          (case live_receivers kind alive s sender of
             (Inl e, s') \<Rightarrow> ((Inl e, []), s')
           | (Inr live, s') \<Rightarrow> (dispatch call live, s')))"

definition send_robust ::
  "(string \<Rightarrow> string option) \<Rightarrow> (pyobj \<Rightarrow> key_kind) \<Rightarrow> (pyobj \<Rightarrow> bool)
     \<Rightarrow> (pyobj \<Rightarrow> exn + 'r) \<Rightarrow> signal \<Rightarrow> pyobj
     \<Rightarrow> ((exn + (pyobj \<times> (exn + 'r)) list) \<times> pyobj list) \<times> signal" where
  "send_robust environ kind alive call s sender =
     (case fast_exit environ kind s sender of
        Inl e \<Rightarrow> ((Inl e, []), s)
      | Inr True \<Rightarrow> ((Inr [], []), s)
      | Inr False \<Rightarrow>
          (case live_receivers kind alive s sender of
             (Inl e, s') \<Rightarrow> ((Inl e, []), s')
           | (Inr live, s') \<Rightarrow>
               (case dispatch_robust call live of
                  (responses, invoked) \<Rightarrow> ((Inr responses, invoked), s'))))"

text \<open>
  The states a signal can be in: created, then any sequence of its operations, with the
  garbage collector running in between.
\<close>

inductive reachable :: "signal \<Rightarrow> bool" where
  reach_init: "reachable (Signal_init caching)"
| reach_connect: "reachable s \<Longrightarrow> reachable (connect alive s receiver sender weak dispatch_uid)"
| reach_disconnect: "reachable s \<Longrightarrow> reachable (snd (disconnect alive s receiver sender dispatch_uid))"
| reach_live: "reachable s \<Longrightarrow> reachable (snd (live_receivers kind alive s sender))"
| reach_remove: "reachable s \<Longrightarrow> reachable (remove_receiver s)"

section \<open>The settings store (\<open>settings.py\<close>)\<close>

subsection \<open>\<open>ObjectDict\<close> and \<open>Settings\<close>\<close>

text \<open>
  A \<open>Settings\<close> object is a dict (its \<open>items\<close>) with, once a scope has been entered,
  the instance attribute \<open>_backup\<close>: the stack of saved states, newest last. The
  attribute lives in the instance's \<open>__dict__\<close>, not among the items. Values are
  immutable here, so \<open>copy.deepcopy\<close> is the identity; of a saved copy only its items
  are ever read.
\<close>

record settings_obj =
  items :: container
  backup :: "container list option"

text \<open>
  \<open>Settings(*args, **kwargs)\<close> hands its arguments to \<open>dict\<close>. \<open>DictArg c\<close> stands
  for arguments that denote the dict \<open>c\<close> (a dict, keyword arguments), \<open>BadArg e\<close> for
  arguments from which \<open>dict\<close> builds nothing and raises \<open>e\<close> instead (a number, a JSON
  array of scalars).
\<close>

datatype settings_arg = DictArg container | BadArg exn

text \<open>\<open>ObjectDict.update\<close>, \<open>ObjectDict.__init__\<close> and \<open>ObjectDict.__setattr__\<close>.\<close>

definition Settings_update :: "settings_obj \<Rightarrow> container \<Rightarrow> exn + settings_obj" where
  "Settings_update s arg =
     (case nested_update (items s) arg of Inl e \<Rightarrow> Inl e | Inr c \<Rightarrow> Inr (s\<lparr>items := c\<rparr>))"

definition Settings_new :: "settings_arg \<Rightarrow> exn + settings_obj" where
  "Settings_new arg =
     (case arg of
        DictArg c \<Rightarrow> Settings_update \<lparr>items = [], backup = None\<rparr> c
      | BadArg e \<Rightarrow> Inl e)"

definition Settings_setattr :: "settings_obj \<Rightarrow> string \<Rightarrow> val \<Rightarrow> exn + settings_obj" where
  "Settings_setattr s name v = Settings_update s [(name, v)]"

text \<open>
  \<open>Settings.__getattr__\<close>. The function stored at a key is called with the global
  \<open>settings\<close> object: it may read other settings, which evaluates and caches them, so
  the call is a transformer of the container being read and of the rest of the program
  state \<open>'w\<close> (the root object when the container is nested in it, the process
  environment). \<open>os.path.expandvars\<close> and \<open>os.path.expanduser\<close> are functions of the
  string, the process environment being fixed. Besides the value or the error, a read
  gives the state it leaves and the calls it made, in order.
\<close>

record 'w access_env =
  call_property :: "nat \<Rightarrow> 'w \<times> settings_obj \<Rightarrow> (exn + val) \<times> ('w \<times> settings_obj)"
  expandvars :: "string \<Rightarrow> string"
  expanduser :: "string \<Rightarrow> string"

datatype event = Invoked nat | Expandvars string | Expanduser string

definition store :: "'w \<times> settings_obj \<Rightarrow> string \<Rightarrow> val \<Rightarrow> 'w \<times> settings_obj" where
  "store st name v = (fst st, (snd st)\<lparr>items := setitem (items (snd st)) name v\<rparr>)"

definition evaluate ::
  "'w access_env \<Rightarrow> 'w \<times> settings_obj \<Rightarrow> string \<Rightarrow> val
     \<Rightarrow> (exn + val) \<times> ('w \<times> settings_obj) \<times> event list" where
  "evaluate env st name v =
     (case v of
        VFunc f \<Rightarrow>
          (case call_property env f st of
             (Inl e, st1) \<Rightarrow> (Inl e, st1, [Invoked f])
           | (Inr r, st1) \<Rightarrow> (Inr r, store st1 name r, [Invoked f]))
      | _ \<Rightarrow> (Inr v, st, []))"

definition expand ::
  "'w access_env \<Rightarrow> 'w \<times> settings_obj \<Rightarrow> string \<Rightarrow> val
     \<Rightarrow> (exn + val) \<times> ('w \<times> settings_obj) \<times> event list" where
  "expand env st name v =
     (case v of
        VStr raw \<Rightarrow>
          (let x = expandvars env raw;
               path = any_endswith name filename_suffixes;
               y = (if path then expanduser env x else x)
           in (Inr (VExpanded y), store st name (VExpanded y),
               Expandvars raw # (if path then [Expanduser x] else [])))
      | _ \<Rightarrow> (Inr v, st, []))"

definition Settings_getattr ::
  "'w access_env \<Rightarrow> 'w \<times> settings_obj \<Rightarrow> string
     \<Rightarrow> (exn + val) \<times> ('w \<times> settings_obj) \<times> event list" where
  "Settings_getattr env st name =
     (case getitem (items (snd st)) name of
        Inl e \<Rightarrow> (Inl AttributeError, st, [])
      | Inr v \<Rightarrow>
          (case evaluate env st name v of
             (Inl e, st1, ev) \<Rightarrow> (Inl (if e = KeyError then AttributeError else e), st1, ev)
           | (Inr r, st1, ev) \<Rightarrow>
               (case expand env st1 name r of
                  (res, st2, ev') \<Rightarrow> (res, st2, ev @ ev'))))"

text \<open>Reading the same key \<open>n\<close> times in a row: the results, the last state, all calls.\<close>

fun read_times ::
  "'w access_env \<Rightarrow> 'w \<times> settings_obj \<Rightarrow> string \<Rightarrow> nat
     \<Rightarrow> (exn + val) list \<times> ('w \<times> settings_obj) \<times> event list" where
  "read_times env st name 0 = ([], st, [])"
| "read_times env st name (Suc n) =
     (case Settings_getattr env st name of
        (r, st1, ev) \<Rightarrow>
          (case read_times env st1 name n of
             (rs, st2, evs) \<Rightarrow> (r # rs, st2, ev @ evs)))"

text \<open>
  Attribute access \<open>obj.name\<close> on a \<open>Settings\<close> object. Python calls \<open>__getattr__\<close> only
  when the normal lookup finds nothing: the instance attribute \<open>_backup\<close> (once a scope
  has been entered), the methods of \<open>dict\<close>, and the special attributes of the classes
  (which names those are is the interpreter's: the predicate \<open>special\<close>) are returned as
  they are, whatever the dict holds under that name.
\<close>

definition dict_methods :: "string list" where
  "dict_methods =
     [''clear'', ''copy'', ''fromkeys'', ''get'', ''items'', ''keys'', ''pop'', ''popitem'',
      ''setdefault'', ''update'', ''values'']"

datatype attribute = Stored val | Method string | BackupStack "container list"

definition Settings_attribute ::
  "(string \<Rightarrow> bool) \<Rightarrow> 'w access_env \<Rightarrow> 'w \<times> settings_obj \<Rightarrow> string
     \<Rightarrow> (exn + attribute) \<times> ('w \<times> settings_obj) \<times> event list" where
  "Settings_attribute special env st name =
     (case (if name = ''_backup'' then backup (snd st) else None) of
        Some stack \<Rightarrow> (Inr (BackupStack stack), st, [])
      | None \<Rightarrow>
          (if name \<in> set dict_methods \<or> special name then (Inr (Method name), st, [])
           else (case Settings_getattr env st name of
                   (Inl e, st1, ev) \<Rightarrow> (Inl e, st1, ev)
                 | (Inr v, st1, ev) \<Rightarrow> (Inr (Stored v), st1, ev))))"



definition Settings_exit :: "settings_obj \<Rightarrow> exn option \<times> settings_obj" where
  "Settings_exit s =
     (let s1 = s\<lparr>items := []\<rparr>
      in case backup s1 of
           None \<Rightarrow> (Some AttributeError, s1)
         | Some stack \<Rightarrow>
             (if stack = [] then (Some IndexError, s1)
              else (let s2 = s1\<lparr>backup := Some (butlast stack)\<rparr>
                    in case Settings_update s2 (last stack) of
                         Inl e \<Rightarrow> (Some e, s2)
                       | Inr s3 \<Rightarrow> (None, s3))))"

subsection \<open>Templates\<close>

type_synonym template = "container \<times> container"

text \<open>
  The body of the loop of \<open>configure\<close> for one template: when the pattern is in the
  container, \<open>d = {}\<close>, \<open>nested_update(d, defaults)\<close>, \<open>nested_update(d, container)\<close>,
  \<open>container.update(d)\<close>. A failure of the first two leaves the container as it was.
\<close>

definition apply_template :: "template \<Rightarrow> container \<Rightarrow> exn + container" where
  "apply_template t c =
     (if nested_in_dict (fst t) c
      then (case nested_update [] (snd t) of
              Inl e \<Rightarrow> Inl e
            | Inr d0 \<Rightarrow>
                (case nested_update d0 c of
                   Inl e \<Rightarrow> Inl e
                 | Inr d1 \<Rightarrow> nested_update c d1))
      else Inr c)"

fun apply_templates :: "template list \<Rightarrow> container \<Rightarrow> exn option \<times> container" where
  "apply_templates [] c = (None, c)"
| "apply_templates (t # ts) c =
     (case apply_template t c of
        Inl e \<Rightarrow> (Some e, c)
      | Inr c' \<Rightarrow> apply_templates ts c')"

subsection \<open>\<open>LazySettings\<close>\<close>

text \<open>
  The state that the wrapper's methods read and write: the wrapper's \<open>_wrapped\<close>, the
  module's list \<open>global_templates\<close>, and the two signals of \<open>signals.py\<close> that it sends.
\<close>

record world =
  wrapped :: "settings_obj option"
  global_templates :: "template list"
  post_settings_configured :: signal
  post_settings_context :: signal

datatype signal_name = PostSettingsConfigured | PostSettingsContext

text \<open>
  What the methods take from outside: the process environment; the files
  (\<open>open(path)\<close> followed by \<open>json.load\<close>: the parsed document as an argument of
  \<open>Settings\<close>, or the error raised), by name and, since \<open>open\<close> takes an integer as a
  file descriptor, by descriptor; the outcome of calling a \<open>settings_property\<close> function
  on a value; the heap's liveness and what the types of objects allow; the outcome of
  calling a receiver of one of the two signals with the wrapper as sender, which may
  depend on the state the receiver finds; and the wrapper's own identity. A receiver is
  modelled by its outcome alone.
\<close>

record env =
  os_environ :: "string \<Rightarrow> string option"
  load_json :: "string \<Rightarrow> exn + settings_arg"
  load_fd :: "int \<Rightarrow> exn + settings_arg"
  prop_on :: "nat \<Rightarrow> val \<Rightarrow> exn + val"
  is_alive :: "pyobj \<Rightarrow> bool"
  kind_of :: "pyobj \<Rightarrow> key_kind"
  receive :: "signal_name \<Rightarrow> world \<Rightarrow> pyobj \<Rightarrow> exn + val"
  self_obj :: pyobj

text \<open>
  A notification that reached a receiver: the signal, the receiver that was called, and
  the settings at that moment.
\<close>

type_synonym notification = "signal_name \<times> pyobj \<times> container"

definition notified :: "signal_name \<Rightarrow> container \<Rightarrow> pyobj list \<Rightarrow> notification list" where
  "notified name c invoked = map (\<lambda>r. (name, r, c)) invoked"

definition raised :: "exn + 'a \<Rightarrow> exn option" where
  "raised res = (case res of Inl e \<Rightarrow> Some e | Inr x \<Rightarrow> None)"

definition ENVIRONMENT_VARIABLE :: string where
  "ENVIRONMENT_VARIABLE = ''TERRA_SETTINGS_FILE''"

definition configured :: "world \<Rightarrow> bool" where
  "configured w = (wrapped w \<noteq> None)"

text \<open>
  \<open>read_json\<close>, the local function of \<open>configure\<close>. Its free name \<open>settings\<close> is the
  loop variable of \<open>for pattern, settings in global_templates\<close> of the enclosing call:
  the defaults of the last template, and unbound (\<open>NameError\<close>) when the list is empty.
  \<open>open\<close> takes a string as a path and an integer (a boolean is one) as a file
  descriptor; any other value is a \<open>TypeError\<close>.
\<close>

definition open_json :: "env \<Rightarrow> val \<Rightarrow> exn + settings_arg" where
  "open_json env json_file =
     (case json_file of
        VStr path \<Rightarrow> load_json env path
      | VExpanded path \<Rightarrow> load_json env path
      | VInt fd \<Rightarrow> load_fd env fd
      | VBool b \<Rightarrow> load_fd env (if b then 1 else 0)
      | _ \<Rightarrow> Inl TypeError)"

definition read_json :: "env \<Rightarrow> template list \<Rightarrow> val \<Rightarrow> exn + container" where
  "read_json env templates v =
     (case (case v of
              VFunc f \<Rightarrow>
                (if templates = [] then Inl NameError
                 else prop_on env f (VDict (snd (last templates))))
            | _ \<Rightarrow> Inr v) of
        Inl e \<Rightarrow> Inl e
      | Inr json_file \<Rightarrow>
          (case open_json env json_file of
             Inl e \<Rightarrow> Inl e
           | Inr js \<Rightarrow>
               (case Settings_new js of
                  Inl e \<Rightarrow> Inl e
                | Inr s \<Rightarrow> Inr (items s))))"

text \<open>
  Modelled from the spec: \<open>nested_patch_inplace\<close> of \<open>vsi.tools.python\<close>, as
  \<open>configure\<close> calls it. The spec (external interfaces): "any key ending in a designated
  suffix has its string value treated as another file path whose parsed JSON contents
  replace it, recursively, at commit time". So the keys of the container are visited at
  every depth, included contents too. A file that includes itself makes this run
  forever: the function takes fuel, and \<open>None\<close> is the call that does not return. The
  patch is in place: on a failure the container keeps what was resolved before it.
\<close>

fun patch_includes ::
  "nat \<Rightarrow> (val \<Rightarrow> exn + container) \<Rightarrow> container \<Rightarrow> (exn option \<times> container) option" where
  "patch_includes 0 patch c = None"
| "patch_includes (Suc n) patch [] = Some (None, [])"
| "patch_includes (Suc n) patch ((k, v) # rest) =
     (case (if any_endswith k json_include_suffixes
            then (case patch v of Inl e \<Rightarrow> Inl e | Inr inc \<Rightarrow> Inr (VDict inc))
            else Inr v) of
        Inl e \<Rightarrow> Some (Some e, (k, v) # rest)
      | Inr v1 \<Rightarrow>
          (case (case v1 of
                   VDict sub \<Rightarrow>
                     (case patch_includes n patch sub of
                        None \<Rightarrow> None
                      | Some (err, sub') \<Rightarrow> Some (err, VDict sub'))
                 | _ \<Rightarrow> Some (None, v1)) of
             None \<Rightarrow> None
           | Some (Some e, v2) \<Rightarrow> Some (Some e, (k, v2) # rest)
           | Some (None, v2) \<Rightarrow>
               (case patch_includes n patch rest of
                  None \<Rightarrow> None
                | Some (err, rest') \<Rightarrow> Some (err, (k, v2) # rest'))))"

text \<open>
  \<open>LazySettings.configure\<close>. \<open>self._wrapped\<close> is assigned as soon as the \<open>Settings\<close>
  object is built; the templates, the includes and the notification work on it in place.
  A result is the error raised (if any), the state left and the notifications that
  reached a receiver; \<open>None\<close> is a call that does not return. The logging calls and the
  two imports before the notification are left out.
\<close>

definition configure ::
  "nat \<Rightarrow> env \<Rightarrow> world \<Rightarrow> settings_arg \<Rightarrow> (exn option \<times> world \<times> notification list) option" where
  "configure fuel env w arg =
     (if wrapped w \<noteq> None then Some (Some ImproperlyConfigured, w, [])
      else
        (case Settings_new arg of
           Inl e \<Rightarrow> Some (Some e, w, [])
         | Inr s0 \<Rightarrow>
             (case apply_templates (global_templates w) (items s0) of
                (Some e, c1) \<Rightarrow> Some (Some e, w\<lparr>wrapped := Some (s0\<lparr>items := c1\<rparr>)\<rparr>, [])
              | (None, c1) \<Rightarrow>
                  (case patch_includes fuel (read_json env (global_templates w)) c1 of
                     None \<Rightarrow> None
                   | Some (Some e, c2) \<Rightarrow>
                       Some (Some e, w\<lparr>wrapped := Some (s0\<lparr>items := c2\<rparr>)\<rparr>, [])
                   | Some (None, c2) \<Rightarrow>
                       (let w1 = w\<lparr>wrapped := Some (s0\<lparr>items := c2\<rparr>)\<rparr>
                        in case send (os_environ env) (kind_of env) (is_alive env)
                                  (receive env PostSettingsConfigured w1)
                                  (post_settings_configured w1) (self_obj env) of
                             ((res, invoked), sig') \<Rightarrow>
                               Some (raised res,
                                     w1\<lparr>post_settings_configured := sig'\<rparr>,
                                     notified PostSettingsConfigured c2 invoked))))))"

text \<open>\<open>LazySettings._setup\<close>, and the test \<open>if self._wrapped is None: self._setup()\<close>.\<close>

definition lazy_setup ::
  "nat \<Rightarrow> env \<Rightarrow> world \<Rightarrow> (exn option \<times> world \<times> notification list) option" where
  "lazy_setup fuel env w =
     (case os_environ env ENVIRONMENT_VARIABLE of
        None \<Rightarrow> Some (Some ImproperlyConfigured, w, [])
      | Some settings_file \<Rightarrow>
          (if settings_file = [] then Some (Some ImproperlyConfigured, w, [])
           else
             (case load_json env settings_file of
                Inl e \<Rightarrow> Some (Some e, w, [])
              | Inr js \<Rightarrow>
                  (case configure fuel env w js of
                     None \<Rightarrow> None
                   | Some (Some e, w1, pubs) \<Rightarrow> Some (Some e, w1, pubs)
                   | Some (None, w1, pubs) \<Rightarrow>
                       (case wrapped w1 of
                          None \<Rightarrow> Some (Some AttributeError, w1, pubs)
                        | Some s \<Rightarrow>
                            (case Settings_setattr s ''config_file'' (VStr settings_file) of
                               Inl e \<Rightarrow> Some (Some e, w1, pubs)
                             | Inr s' \<Rightarrow> Some (None, w1\<lparr>wrapped := Some s'\<rparr>, pubs)))))))"

definition ensure_setup ::
  "nat \<Rightarrow> env \<Rightarrow> world \<Rightarrow> (exn option \<times> world \<times> notification list) option" where
  "ensure_setup fuel env w = (if wrapped w = None then lazy_setup fuel env w else Some (None, w, []))"

text \<open>
  \<open>LazyObject.__getitem__\<close> and \<open>LazyObject.__setitem__\<close>: set up if need be, then
  the operation of the wrapped object. Item access is the dict's own.
\<close>

definition lazy_getitem ::
  "nat \<Rightarrow> env \<Rightarrow> world \<Rightarrow> string \<Rightarrow> ((exn + val) \<times> world \<times> notification list) option" where
  "lazy_getitem fuel env w name =
     (case ensure_setup fuel env w of
        None \<Rightarrow> None
      | Some (Some e, w1, pubs) \<Rightarrow> Some (Inl e, w1, pubs)
      | Some (None, w1, pubs) \<Rightarrow>
          (case wrapped w1 of
             None \<Rightarrow> Some (Inl TypeError, w1, pubs)
           | Some s \<Rightarrow> Some (getitem (items s) name, w1, pubs)))"



definition lazy_exit :: "env \<Rightarrow> world \<Rightarrow> exn option \<times> world \<times> notification list" where
  "lazy_exit env w =
     (case wrapped w of
        None \<Rightarrow> (Some AttributeError, w, [])
      | Some s \<Rightarrow>
          (case Settings_exit s of
             (Some e, s') \<Rightarrow> (Some e, w\<lparr>wrapped := Some s'\<rparr>, [])
           | (None, s') \<Rightarrow>
               (let w1 = w\<lparr>wrapped := Some s'\<rparr>
                in case send (os_environ env) (kind_of env) (is_alive env)
                          (receive env PostSettingsContext w1)
                          (post_settings_context w1) (self_obj env) of
                     ((res, invoked), sig') \<Rightarrow>
                       (raised res,
                        w1\<lparr>post_settings_context := sig'\<rparr>,
                        notified PostSettingsContext (items s') invoked))))"

subsection \<open>The template registry\<close>

text \<open>
  \<open>list.insert(i, x)\<close>: a negative index counts from the end, and an index out of range
  is clamped to the nearest end.
\<close>

definition py_insert :: "'a list \<Rightarrow> int \<Rightarrow> 'a \<Rightarrow> 'a list" where
  "py_insert xs i x =
     (let n = int (length xs);
          j = (if i < 0 then max 0 (i + n) else min i n)
      in take (nat j) xs @ [x] @ drop (nat j) xs)"

text \<open>
  \<open>LazySettings.add_templates\<close>: \<open>offset = len(global_templates)\<close>, then
  \<open>global_templates.insert(-offset, template)\<close> for each template in turn.
\<close>

fun add_templates_loop :: "template list \<Rightarrow> int \<Rightarrow> template list \<Rightarrow> template list" where
  "add_templates_loop registry offset [] = registry"
| "add_templates_loop registry offset (t # ts) =
     add_templates_loop (py_insert registry (- offset) t) offset ts"

definition add_templates :: "world \<Rightarrow> template list \<Rightarrow> world" where
  "add_templates w templates =
     w\<lparr>global_templates :=
         add_templates_loop (global_templates w) (int (length (global_templates w))) templates\<rparr>"

text \<open>
  The list that the module binds to \<open>global_templates\<close> when it is loaded. The functions
  are numbered: 0 is \<open>status_file\<close>, 1 \<open>processing_dir\<close>, 2 \<open>unittest\<close>, 3
  \<open>need_to_set_virtualenv_dir\<close>. \<open>platform.node()\<close> and \<open>DEFAULT_TCP_LOGGING_PORT\<close> are
  what the host and the library give.
\<close>

definition global_templates_initial :: "string \<Rightarrow> int \<Rightarrow> template list" where
  "global_templates_initial node port =
     [([],
       [(''logging'',
         VDict [(''level'', VStr ''ERROR''),
                (''format'',
                 VStr ''%(asctime)s (%(hostname)s:%(zone)s): %(levelname)s - %(filename)s - %(message)s''),
                (''date_format'', VNone),
                (''style'', VStr ''%''),
                (''server'', VDict [(''hostname'', VStr node), (''port'', VInt port)])]),
        (''executor'', VDict [(''type'', VStr ''ThreadPoolExecutor''), (''volume_map'', VList [])]),
        (''compute'', VDict [(''arch'', VStr ''terra.compute.dummy''), (''volume_map'', VList [])]),
        (''terra'', VDict [(''zone'', VStr ''controller'')]),
        (''status_file'', VFunc 0),
        (''processing_dir'', VFunc 1),
        (''unittest'', VFunc 2),
        (''resume'', VBool False)]),
      ([(''compute'', VDict [(''arch'', VStr ''terra.compute.virtualenv'')])],
       [(''compute'', VDict [(''virtualenv_dir'', VFunc 3)])]),
      ([(''compute'', VDict [(''arch'', VStr ''virtualenv'')])],
       [(''compute'', VDict [(''virtualenv_dir'', VFunc 3)])])]"

text \<open>
  The registries the program can hold: the list of the module, and what \<open>add_templates\<close>
  makes of one. Nothing else in the sources assigns, removes from or rebinds the list.
\<close>

inductive registry :: "template list \<Rightarrow> bool" where
  registry_initial: "registry (global_templates_initial node port)"
| registry_added:
    "registry r \<Longrightarrow> registry (add_templates_loop r (int (length r)) templates)"

section \<open>Notions used in the statements\<close>

text \<open>
  A value that an attribute read returns as it is: anything but a \<open>settings_property\<close>
  function (which is called) and a plain string (which is expanded).
\<close>

fun settled :: "val \<Rightarrow> bool" where
  "settled (VFunc f) = False"
| "settled (VStr s) = False"
| "settled v = True"


text \<open>
  Concrete inputs. A signal with three strongly held receivers for any sender, of which
  the second raises; the environment of a test run; a configured wrapper holding two
  settings, and the same with a receiver connected to the scope-exited signal; and the
  functions of \<open>settings.py\<close>: number 1 is \<open>processing_dir\<close>, here returning a path with
  a variable in it, number 3 is \<open>need_to_set_virtualenv_dir\<close>, which always raises
  \<open>ImproperlyConfigured\<close>.
\<close>

definition example_signal :: signal where
  "example_signal =
     connect (\<lambda>_. True)
       (connect (\<lambda>_. True)
          (connect (\<lambda>_. True) (Signal_init False) (Obj 1) PyNone False NoUid)
          (Obj 2) PyNone False NoUid)
       (Obj 3) PyNone False NoUid"



definition example_env :: env where
  "example_env =
     \<lparr>os_environ = (\<lambda>_. None), load_json = (\<lambda>_. Inl OSError), load_fd = (\<lambda>_. Inl OSError),
      prop_on = (\<lambda>f v. Inl AttributeError), is_alive = (\<lambda>_. True),
      kind_of = (\<lambda>_. WeakReferenceable),
      receive = (\<lambda>n w r. Inr VNone), self_obj = Obj 100\<rparr>"


definition example_settings :: settings_obj where
  "example_settings =
     \<lparr>items = [(''logging'', VDict [(''level'', VStr ''DEBUG'')]), (''resume'', VBool False)],
      backup = None\<rparr>"

definition example_world :: world where
  "example_world =
     \<lparr>wrapped = Some example_settings, global_templates = [],
      post_settings_configured = Signal_init False,
      post_settings_context = Signal_init False\<rparr>"





definition example_access :: "unit access_env" where
  "example_access =
     \<lparr>call_property =
        (\<lambda>f st. if f = 3 then (Inl ImproperlyConfigured, st) else (Inr (VStr ''$HOME/run''), st)),
      expandvars = (\<lambda>s. if s = ''$HOME/run'' then ''~/run'' else s),
      expanduser = (\<lambda>s. if s = ''~/run'' then ''/home/u/run'' else s)\<rparr>"

definition example_store :: "unit \<times> settings_obj" where
  "example_store =
     ((), \<lparr>items = [(''processing_dir'', VFunc 1), (''virtualenv_dir'', VFunc 3),
                      (''log_file'', VStr ''$HOME/run'')],
           backup = None\<rparr>)"

text \<open>The dict stored at a key, empty when the key is absent or holds something else.\<close>

definition sub_dict :: "container \<Rightarrow> string \<Rightarrow> container" where
  "sub_dict d k = (case map_of d k of Some (VDict old) \<Rightarrow> old | _ \<Rightarrow> [])"

text \<open>
  What one step of \<open>nested_update\<close> stores at key \<open>k\<close> of \<open>d\<close> for the incoming
  value \<open>v\<close>: a leaf as it is, a dict merged into the dict that \<open>d\<close> has there.
\<close>

definition merged_at :: "container \<Rightarrow> string \<Rightarrow> val \<Rightarrow> val \<Rightarrow> bool" where
  "merged_at d k v x =
     (case v of
        VDict sub \<Rightarrow>
          (case map_of d k of None \<Rightarrow> True | Some w \<Rightarrow> \<not> is_leaf w)
          \<and> (case nested_update (sub_dict d k) sub of Inl e \<Rightarrow> False | Inr m \<Rightarrow> x = VDict m)
      | _ \<Rightarrow> x = v)"

text \<open>
  More concrete inputs: a template with nested defaults for the logging settings, a
  container in which the user has set \<open>logging\<close> to a plain string, one in which the user
  has set the level only, and an unconfigured wrapper with that template registered.
\<close>

definition example_template :: template where
  "example_template =
     ([], [(''logging'', VDict [(''level'', VStr ''ERROR''), (''style'', VStr ''%'')]),
           (''resume'', VBool False)])"

definition example_scalar_logging :: container where
  "example_scalar_logging = [(''logging'', VStr ''DEBUG'')]"

definition example_user :: container where
  "example_user = [(''logging'', VDict [(''level'', VStr ''DEBUG'')])]"

definition example_unconfigured :: world where
  "example_unconfigured =
     \<lparr>wrapped = None, global_templates = [example_template],
      post_settings_configured = Signal_init False,
      post_settings_context = Signal_init False\<rparr>"

definition example_include :: container where
  "example_include = [(''extra_json'', VStr ''missing.json'')]"

section \<open>The template registry: \<open>add_templates\<close>\<close>

lemma py_insert_front: "py_insert xs 0 x = x # xs"
  by (simp add: py_insert_def)

lemma add_templates_loop_empty_offset: "add_templates_loop acc 0 ts = rev ts @ acc"
  by (induction ts arbitrary: acc) (simp_all add: py_insert_front)

lemma py_insert_tail:
  "tail \<noteq> [] \<Longrightarrow> py_insert (pre @ tail) (- int (length tail)) x = pre @ x # tail"
  by (simp add: py_insert_def Let_def)

lemma add_templates_loop_tail:
  "tail \<noteq> [] \<Longrightarrow>
   add_templates_loop (pre @ tail) (int (length tail)) ts = pre @ ts @ tail"
proof (induction ts arbitrary: pre)
  case Nil
  then show ?case by simp
next
  case (Cons t ts)
  have "py_insert (pre @ tail) (- int (length tail)) t = (pre @ [t]) @ tail"
    using Cons.prems by (simp add: py_insert_tail)
  then show ?case
    using Cons.IH [OF Cons.prems, of "pre @ [t]"] by simp
qed

text \<open>
  With a registry that is not empty the new templates go in front, in the order given,
  and the old ones stay behind them as they were.
\<close>

lemma add_templates_nonempty:
  "global_templates w \<noteq> [] \<Longrightarrow>
   global_templates (add_templates w ts) = ts @ global_templates w"
  using add_templates_loop_tail [of "global_templates w" "[]" ts]
  by (simp add: add_templates_def)

lemma add_templates_empty:
  "global_templates w = [] \<Longrightarrow> global_templates (add_templates w ts) = rev ts"
  by (simp add: add_templates_def add_templates_loop_empty_offset)

text \<open>
  With an empty list \<open>offset\<close> is 0 and \<open>insert(-0, t)\<close> puts every template at the
  front, which reverses the new templates; no registry of the program is empty.
\<close>

lemma add_templates_empty_registry_reverses:
  "global_templates (add_templates (w\<lparr>global_templates := []\<rparr>) [t1, t2]) = [t2, t1]"
  by (simp add: add_templates_def py_insert_def)

lemma registry_nonempty: "registry r \<Longrightarrow> r \<noteq> []"
proof (induction rule: registry.induct)
  case (registry_initial node port)
  then show ?case by (simp add: global_templates_initial_def)
next
  case (registry_added r templates)
  then show ?case
    using add_templates_loop_tail [of r "[]" templates] by simp
qed

text \<open>
  Claim C8: for every list of new templates, and every registry the program can hold,
  \<open>add_templates\<close> leaves the new templates in front, in the order given, followed by the
  templates registered at the time of the call, in their order; and the result is again
  such a registry.
\<close>

theorem add_templates_prepends:
  assumes "registry (global_templates w)"
  shows "global_templates (add_templates w templates) = templates @ global_templates w
       \<and> registry (global_templates (add_templates w templates))"
proof -
  have "global_templates (add_templates w templates) = templates @ global_templates w"
    using registry_nonempty [OF assms] by (rule add_templates_nonempty)
  moreover have "registry (global_templates (add_templates w templates))"
    using registry_added [OF assms, of templates] by (simp add: add_templates_def)
  ultimately show ?thesis by simp
qed

theorem add_templates_prepends_witness:
  "registry (global_templates (example_world\<lparr>global_templates := global_templates_initial ''host'' 9020\<rparr>))
   \<and> global_templates
        (add_templates (example_world\<lparr>global_templates := global_templates_initial ''host'' 9020\<rparr>)
           [example_template, ([], [(''resume'', VBool True)])])
       = [example_template, ([], [(''resume'', VBool True)])] @ global_templates_initial ''host'' 9020"
proof -
  have a: "registry (global_templates
             (example_world\<lparr>global_templates := global_templates_initial ''host'' 9020\<rparr>))"
    by (simp add: registry_initial)
  show ?thesis
    using add_templates_prepends [OF a, of "[example_template, ([], [(''resume'', VBool True)])]"] a
    by simp
qed

section \<open>The signal dispatcher: lookup keys\<close>

lemma clear_dead_distinct:
  "distinct (map fst (receivers s)) \<Longrightarrow>
   distinct (map fst (receivers (clear_dead_receivers alive s)))"
  by (simp add: clear_dead_receivers_def distinct_map_filter)

lemma list_ex_key: "list_ex (\<lambda>e. fst e = key) rs \<longleftrightarrow> key \<in> fst ` set rs"
  by (auto simp: list_ex_iff)

lemma connect_distinct:
  "distinct (map fst (receivers s)) \<Longrightarrow>
   distinct (map fst (receivers (connect alive s receiver sender weak dispatch_uid)))"
  using clear_dead_distinct [of s alive]
  by (simp add: connect_def Let_def list_ex_key)

lemma delete_first_set: "set (snd (delete_first key rs)) \<subseteq> set rs"
  by (induction rs) (auto split: prod.splits)

lemma delete_first_distinct:
  "distinct (map fst rs) \<Longrightarrow> distinct (map fst (snd (delete_first key rs)))"
proof (induction rs)
  case Nil
  then show ?case by simp
next
  case (Cons e es)
  then show ?case
    using delete_first_set [of key es] by (auto split: prod.splits)
qed

lemma disconnect_distinct:
  "distinct (map fst (receivers s)) \<Longrightarrow>
   distinct (map fst (receivers (snd (disconnect alive s receiver sender dispatch_uid))))"
  using clear_dead_distinct [of s alive]
    delete_first_distinct [of "receivers (clear_dead_receivers alive s)"]
  by (simp add: disconnect_def Let_def split: prod.splits) (metis snd_conv)

lemma live_receivers_distinct:
  "distinct (map fst (receivers s)) \<Longrightarrow>
   distinct (map fst (receivers (snd (live_receivers kind alive s sender))))"
  using clear_dead_distinct [of s alive]
  by (simp add: live_receivers_def Let_def split: sum.splits option.splits cache_entry.splits)

lemma reachable_distinct: "reachable s \<Longrightarrow> distinct (map fst (receivers s))"
proof (induction rule: reachable.induct)
  case (reach_init caching)
  then show ?case by (simp add: Signal_init_def)
next
  case (reach_connect s alive receiver sender weak dispatch_uid)
  then show ?case by (simp add: connect_distinct)
next
  case (reach_disconnect s alive receiver sender dispatch_uid)
  then show ?case by (simp add: disconnect_distinct)
next
  case (reach_live s kind alive sender)
  then show ?case by (simp add: live_receivers_distinct)
next
  case (reach_remove s)
  then show ?case by (simp add: remove_receiver_def)
qed

lemma connect_not_dead:
  "dead_receivers (connect alive s receiver sender weak dispatch_uid) = False"
  by (simp add: connect_def Let_def clear_dead_receivers_def)

lemma connect_has_key:
  "list_ex (\<lambda>e. fst e = lookup_key_of receiver sender dispatch_uid)
     (receivers (connect alive s receiver sender weak dispatch_uid))"
  by (simp add: connect_def Let_def list_ex_key)

text \<open>A second \<open>connect\<close> whose lookup key is that of the first changes nothing.\<close>

lemma connect_same_key_noop:
  assumes "lookup_key_of receiver' sender' dispatch_uid' = lookup_key_of receiver sender dispatch_uid"
  shows "connect alive' (connect alive s receiver sender weak dispatch_uid)
           receiver' sender' weak' dispatch_uid'
         = connect alive s receiver sender weak dispatch_uid"
proof -
  let ?s1 = "connect alive s receiver sender weak dispatch_uid"
  have clear: "clear_dead_receivers alive' ?s1 = ?s1"
    by (simp add: clear_dead_receivers_def connect_not_dead)
  have "?s1\<lparr>sender_receivers_cache := (\<lambda>_. None)\<rparr> = ?s1"
    by (simp add: connect_def Let_def)
  then show ?thesis
    unfolding connect_def [of alive' ?s1] Let_def clear assms
    using connect_has_key [of receiver sender dispatch_uid alive s weak] by simp
qed

lemma example_signal_eq:
  "example_signal =
     \<lparr>receivers = [((KInt 1, KInt 0), Strong (Obj 1)), ((KInt 2, KInt 0), Strong (Obj 2)),
                   ((KInt 3, KInt 0), Strong (Obj 3))],
      use_caching = False, sender_receivers_cache = (\<lambda>_. None), dead_receivers = False\<rparr>"
  by (simp add: example_signal_def connect_def Signal_init_def clear_dead_receivers_def
      lookup_key_of_def Let_def)

lemma example_signal_reachable: "reachable example_signal"
  unfolding example_signal_def by (intro reach_connect reach_init)

text \<open>
  Claim C6: in every state a signal can reach, no two receiver entries share a lookup
  key; and a second \<open>connect\<close> with the same receiver, sender and dispatch uid, or with
  the same (truthy) dispatch uid and sender for whatever receiver, is a no-op: the signal,
  and so the number of its entries, is what the first \<open>connect\<close> left.
\<close>

theorem connect_keys_unique_and_duplicate_noop:
  assumes "reachable s"
  shows "distinct (map fst (receivers s))
       \<and> connect alive' (connect alive s receiver sender weak dispatch_uid)
             receiver sender weak' dispatch_uid
           = connect alive s receiver sender weak dispatch_uid
       \<and> (truthy dispatch_uid \<longrightarrow>
            connect alive' (connect alive s receiver sender weak dispatch_uid)
                receiver' sender weak' dispatch_uid
              = connect alive s receiver sender weak dispatch_uid)
       \<and> length (receivers (connect alive' (connect alive s receiver sender weak dispatch_uid)
                              receiver sender weak' dispatch_uid))
           = length (receivers (connect alive s receiver sender weak dispatch_uid))"
proof -
  have same: "connect alive' (connect alive s receiver sender weak dispatch_uid)
             receiver sender weak' dispatch_uid
           = connect alive s receiver sender weak dispatch_uid"
    by (rule connect_same_key_noop) simp
  have "truthy dispatch_uid \<Longrightarrow>
        connect alive' (connect alive s receiver sender weak dispatch_uid)
             receiver' sender weak' dispatch_uid
           = connect alive s receiver sender weak dispatch_uid"
    by (rule connect_same_key_noop) (simp add: lookup_key_of_def)
  then show ?thesis
    using reachable_distinct [OF assms] same by simp
qed

theorem connect_keys_unique_and_duplicate_noop_witness:
  "reachable example_signal
   \<and> distinct (map fst (receivers example_signal))
   \<and> connect (\<lambda>_. True) (connect (\<lambda>_. True) example_signal (Obj 4) PyNone True (UidStr ''log''))
         (Obj 5) PyNone True (UidStr ''log'')
       = connect (\<lambda>_. True) example_signal (Obj 4) PyNone True (UidStr ''log'')
   \<and> length (receivers (connect (\<lambda>_. True)
                (connect (\<lambda>_. True) example_signal (Obj 4) PyNone True (UidStr ''log''))
                (Obj 4) PyNone True (UidStr ''log''))) = 4"
proof -
  have "length (receivers (connect (\<lambda>_. True) example_signal (Obj 4) PyNone True (UidStr ''log''))) = 4"
    by (simp add: example_signal_eq connect_def clear_dead_receivers_def lookup_key_of_def Let_def)
  then show ?thesis
    using connect_keys_unique_and_duplicate_noop [OF example_signal_reachable,
        of "\<lambda>_. True" "\<lambda>_. True" "Obj 4" PyNone True "UidStr ''log''" True "Obj 5"]
      example_signal_reachable
    by simp
qed

section \<open>The signal dispatcher: \<open>send\<close> and \<open>send_robust\<close>\<close>







text \<open>
  On a caching signal a sender that cannot be weakly referenced, such as \<open>None\<close>, makes
  the lookup in the cache raise before any receiver is invoked.
\<close>

lemma send_cache_refuses:
  assumes "receivers s \<noteq> []" and "cache_refuses kind s sender"
  shows "send environ kind alive call s sender = ((Inl TypeError, []), s)"
    and "send_robust environ kind alive call s sender = ((Inl TypeError, []), s)"
  using assms by (simp_all add: send_def send_robust_def fast_exit_def cache_get_def)

section \<open>Merging into an empty dict\<close>

lemma setitem_fresh: "k \<notin> fst ` set d \<Longrightarrow> setitem d k v = d @ [(k, v)]"
  by (induction d) (auto simp: setitem_def)

lemma map_of_fresh: "k \<notin> fst ` set d \<Longrightarrow> map_of d k = None"
  by (simp add: map_of_eq_None_iff)

lemma unique_keys_Cons:
  "unique_keys ((k, v) # rest) \<longleftrightarrow> k \<notin> fst ` set rest \<and> wf_val v \<and> unique_keys rest"
  by (auto simp: unique_keys_def)

text \<open>
  Merging a dict with unique keys into one that has none of its keys appends it: nothing
  can clash, so the merge does not fail.
\<close>

lemma nested_update_fresh:
  "unique_keys u \<Longrightarrow> fst ` set d \<inter> fst ` set u = {} \<Longrightarrow> nested_update d u = Inr (d @ u)"
proof (induction d u rule: nested_update.induct)
  case (1 d)
  then show ?case by simp
next
  case (2 d k v rest)
  from "2.prems" have fresh: "k \<notin> fst ` set d" and krest: "k \<notin> fst ` set rest"
    and wfv: "wf_val v" and wfrest: "unique_keys rest"
    by (auto simp: unique_keys_Cons)
  have none: "map_of d k = None" using fresh by (rule map_of_fresh)
  have disj: "\<And>x. fst ` set (setitem d k x) \<inter> fst ` set rest = {}"
    using "2.prems"(2) krest by (auto simp: setitem_fresh [OF fresh])
  show ?case
  proof (cases v)
    case (VDict sub)
    have "unique_keys sub"
      using wfv VDict by (simp add: unique_keys_def)
    then have "nested_update [] sub = Inr sub"
      using "2.IH"(7) [OF VDict none] by simp
    moreover have "nested_update (setitem d k (VDict sub)) rest = Inr (setitem d k (VDict sub) @ rest)"
      using "2.IH"(8) [OF VDict none \<open>nested_update [] sub = Inr sub\<close> wfrest disj] .
    ultimately show ?thesis
      using VDict none by (simp add: setitem_fresh [OF fresh])
  qed (use "2.IH"(1-6,11) [OF _ wfrest disj] in \<open>simp_all add: setitem_fresh [OF fresh]\<close>)
qed

lemma nested_update_empty: "unique_keys u \<Longrightarrow> nested_update [] u = Inr u"
  using nested_update_fresh [of u "[]"] by simp

section \<open>Scopes: \<open>__enter__\<close> and \<open>__exit__\<close>\<close>














text \<open>
  Claim C10: \<open>__exit__\<close> on a container with no saved state (the \<open>_backup\<close> attribute
  never set, or the stack empty) raises, and what it leaves is the container cleared:
  \<open>self.clear()\<close> comes before the lookup and the pop. Through the wrapper the same
  error comes out, and no notification is published.
\<close>

theorem exit_without_backup_clears:
  assumes "backup s = None \<or> backup s = Some []"
  shows "(\<exists>e. Settings_exit s = (Some e, s\<lparr>items := []\<rparr>))
       \<and> (\<exists>e. lazy_exit env (w\<lparr>wrapped := Some s\<rparr>)
                 = (Some e, w\<lparr>wrapped := Some (s\<lparr>items := []\<rparr>)\<rparr>, []))"
  using assms by (auto simp: Settings_exit_def lazy_exit_def Let_def)

theorem exit_without_backup_clears_witness:
  "backup example_settings = None
   \<and> (\<exists>e. Settings_exit example_settings = (Some e, example_settings\<lparr>items := []\<rparr>))
   \<and> (\<exists>e. lazy_exit example_env example_world
             = (Some e, example_world\<lparr>wrapped := Some (example_settings\<lparr>items := []\<rparr>)\<rparr>, []))"
proof -
  have a: "backup example_settings = None \<or> backup example_settings = Some []"
    by (simp add: example_settings_def)
  have b: "example_world\<lparr>wrapped := Some example_settings\<rparr> = example_world"
    by (simp add: example_world_def)
  have c: "backup example_settings = None"
    by (simp add: example_settings_def)
  show ?thesis
    using exit_without_backup_clears [OF a, of example_env example_world] c
    unfolding b by simp
qed

section \<open>Attribute access and item access\<close>

lemma getitem_store:
  "getitem (items (snd (store st name v))) name = Inr v"
  by (simp add: store_def getitem_def setitem_def update_conv')

lemma getattr_settled:
  "getitem (items (snd st)) name = Inr v \<Longrightarrow> settled v \<Longrightarrow>
   Settings_getattr env st name = (Inr v, st, [])"
  by (cases v) (simp_all add: Settings_getattr_def evaluate_def expand_def)

lemma read_times_settled:
  "getitem (items (snd st)) name = Inr v \<Longrightarrow> settled v \<Longrightarrow>
   read_times env st name n = (replicate n (Inr v), st, [])"
  by (induction n) (simp_all add: getattr_settled)




text \<open>
  An attribute whose name the normal lookup finds never reaches \<open>__getattr__\<close>: a
  function stored under a name such as \<open>keys\<close> or \<open>update\<close> is not invoked by attribute
  access.
\<close>

lemma attribute_of_class:
  "name \<in> set dict_methods \<or> special name \<Longrightarrow> name \<noteq> ''_backup'' \<Longrightarrow>
   Settings_attribute special env st name = (Inr (Method name), st, [])"
  by (simp add: Settings_attribute_def)


lemma processing_dir_suffix: "any_endswith ''processing_dir'' filename_suffixes"
  by (simp add: any_endswith_def filename_suffixes_def endswith_def)




text \<open>
  Claim C7: a plain string under a path-suffixed key is expanded by the first attribute
  read only: over any number \<open>n + 1\<close> of reads \<open>expandvars\<close> and \<open>expanduser\<close> are each
  applied once, to the raw string; every read returns the expanded string, which is
  stored tagged; and a read of the tagged value returns it and changes nothing.
\<close>

theorem path_string_expanded_once:
  assumes "getitem (items (snd st)) name = Inr (VStr raw)"
    and "any_endswith name filename_suffixes"
    and "y = expanduser env (expandvars env raw)"
  shows "read_times env st name (Suc n)
           = (replicate (Suc n) (Inr (VExpanded y)), store st name (VExpanded y),
              [Expandvars raw, Expanduser (expandvars env raw)])
       \<and> Settings_getattr env (store st name (VExpanded y)) name
           = (Inr (VExpanded y), store st name (VExpanded y), [])"
proof -
  have first: "Settings_getattr env st name
      = (Inr (VExpanded y), store st name (VExpanded y),
         [Expandvars raw, Expanduser (expandvars env raw)])"
    using assms by (simp add: Settings_getattr_def evaluate_def expand_def Let_def)
  have again: "\<And>m. read_times env (store st name (VExpanded y)) name m
      = (replicate m (Inr (VExpanded y)), store st name (VExpanded y), [])"
    by (rule read_times_settled [OF getitem_store]) simp
  have "Settings_getattr env (store st name (VExpanded y)) name
      = (Inr (VExpanded y), store st name (VExpanded y), [])"
    by (rule getattr_settled [OF getitem_store]) simp
  then show ?thesis
    using first again [of n] by simp
qed

lemma log_file_suffix: "any_endswith ''log_file'' filename_suffixes"
  by (simp add: any_endswith_def filename_suffixes_def endswith_def)

theorem path_string_expanded_once_witness:
  "getitem (items (snd example_store)) ''log_file'' = Inr (VStr ''$HOME/run'')
   \<and> any_endswith ''log_file'' filename_suffixes
   \<and> ''/home/u/run'' = expanduser example_access (expandvars example_access ''$HOME/run'')
   \<and> read_times example_access example_store ''log_file'' 3
       = ([Inr (VExpanded ''/home/u/run''), Inr (VExpanded ''/home/u/run''),
           Inr (VExpanded ''/home/u/run'')],
          store example_store ''log_file'' (VExpanded ''/home/u/run''),
          [Expandvars ''$HOME/run'', Expanduser ''~/run''])"
proof -
  have a: "getitem (items (snd example_store)) ''log_file'' = Inr (VStr ''$HOME/run'')"
    by (simp add: example_store_def getitem_def)
  have c: "''/home/u/run'' = expanduser example_access (expandvars example_access ''$HOME/run'')"
    by (simp add: example_access_def)
  have d: "expandvars example_access ''$HOME/run'' = ''~/run''"
    by (simp add: example_access_def)
  show ?thesis
    using path_string_expanded_once [OF a log_file_suffix c, of 2] a log_file_suffix c
    by (simp only: d replicate.simps numeral_2_eq_2 numeral_3_eq_3)
qed

text \<open>
  Claim C9: item access returns the stored value as it is. For a key of the container,
  \<open>container[key]\<close> is the stored value, and so is \<open>wrapper[key]\<close> on a configured
  wrapper, which leaves the state as it was and publishes nothing: a function comes back
  uncalled, a string unexpanded. Attribute access of the same key calls something (the
  function, or the expansion) exactly when the stored value is a function or a plain
  string.
\<close>

theorem item_access_is_raw:
  assumes "wrapped w = Some s" and "map_of (items s) name = Some v"
  shows "getitem (items s) name = Inr v
       \<and> lazy_getitem fuel env w name = Some (Inr v, w, [])
       \<and> (snd (snd (Settings_getattr aenv (x, s) name)) = [] \<longleftrightarrow> settled v)"
proof -
  have a: "getitem (items s) name = Inr v"
    using assms(2) by (simp add: getitem_def)
  have b: "lazy_getitem fuel env w name = Some (Inr v, w, [])"
    using assms(1) a by (simp add: lazy_getitem_def ensure_setup_def)
  have c: "snd (snd (Settings_getattr aenv (x, s) name)) = [] \<longleftrightarrow> settled v"
  proof (cases v)
    case (VFunc f)
    then show ?thesis
      using a by (auto simp: Settings_getattr_def evaluate_def split: prod.splits sum.splits)
  next
    case (VStr raw)
    then show ?thesis
      using a by (simp add: Settings_getattr_def evaluate_def expand_def Let_def)
  qed (use a in \<open>simp_all add: getattr_settled\<close>)
  show ?thesis using a b c by simp
qed

theorem item_access_is_raw_witness:
  "wrapped (example_world\<lparr>wrapped := Some (snd example_store)\<rparr>) = Some (snd example_store)
   \<and> map_of (items (snd example_store)) ''processing_dir'' = Some (VFunc 1)
   \<and> getitem (items (snd example_store)) ''processing_dir'' = Inr (VFunc 1)
   \<and> lazy_getitem 0 example_env (example_world\<lparr>wrapped := Some (snd example_store)\<rparr>) ''processing_dir''
       = Some (Inr (VFunc 1), example_world\<lparr>wrapped := Some (snd example_store)\<rparr>, [])
   \<and> snd (snd (Settings_getattr example_access ((), snd example_store) ''processing_dir'')) \<noteq> []"
proof -
  have a: "wrapped (example_world\<lparr>wrapped := Some (snd example_store)\<rparr>) = Some (snd example_store)"
    by simp
  have b: "map_of (items (snd example_store)) ''processing_dir'' = Some (VFunc 1)"
    by (simp add: example_store_def)
  show ?thesis
    using item_access_is_raw [OF a b, of 0 example_env example_access "()"] a b
    by simp
qed

section \<open>Templates: what a merge keeps and what it fills\<close>

lemma map_of_setitem: "map_of (setitem d k v) k' = (if k' = k then Some v else map_of d k')"
  by (simp add: setitem_def update_conv')

lemma sub_dict_setitem_other: "k' \<noteq> k \<Longrightarrow> sub_dict (setitem d k v) k' = sub_dict d k'"
  by (simp add: sub_dict_def map_of_setitem)

lemma merged_at_setitem_other:
  "k' \<noteq> k \<Longrightarrow> merged_at (setitem d k y) k' v x = merged_at d k' v x"
  by (cases v) (simp_all add: merged_at_def map_of_setitem sub_dict_setitem_other)

lemma nested_update_step:
  assumes "nested_update d ((k, v) # rest) = Inr d'"
  shows "\<exists>x. nested_update (setitem d k x) rest = Inr d' \<and> merged_at d k v x"
proof (cases v)
  case (VDict sub)
  show ?thesis
  proof (cases "map_of d k")
    case None
    then show ?thesis
      using assms VDict
      by (auto simp: merged_at_def sub_dict_def split: sum.splits)
  next
    case (Some w)
    then show ?thesis
      using assms VDict
      by (cases w) (auto simp: merged_at_def sub_dict_def split: sum.splits)
  qed
qed (use assms in \<open>auto simp: merged_at_def\<close>)

lemma nested_update_lookup_absent:
  "nested_update d u = Inr d' \<Longrightarrow> k \<notin> fst ` set u \<Longrightarrow> map_of d' k = map_of d k"
proof (induction u arbitrary: d)
  case Nil
  then show ?case by simp
next
  case (Cons kv rest)
  obtain k' v where kv: "kv = (k', v)" by (cases kv)
  from Cons.prems(1) obtain x where "nested_update (setitem d k' x) rest = Inr d'"
    unfolding kv using nested_update_step by blast
  then have "map_of d' k = map_of (setitem d k' x) k"
    using Cons.IH Cons.prems(2) by simp
  then show ?case
    using Cons.prems(2) by (simp add: kv map_of_setitem)
qed

lemma nested_update_lookup_present:
  "distinct (map fst u) \<Longrightarrow> nested_update d u = Inr d' \<Longrightarrow> map_of u k = Some v \<Longrightarrow>
   \<exists>x. map_of d' k = Some x \<and> merged_at d k v x"
proof (induction u arbitrary: d)
  case Nil
  then show ?case by simp
next
  case (Cons kv rest)
  obtain k' v' where kv: "kv = (k', v')" by (cases kv)
  from Cons.prems(2) obtain x where
    rest: "nested_update (setitem d k' x) rest = Inr d'" and step: "merged_at d k' v' x"
    unfolding kv using nested_update_step by blast
  show ?case
  proof (cases "k = k'")
    case True
    then have "k \<notin> fst ` set rest" and "v' = v"
      using Cons.prems(1,3) by (auto simp: kv)
    then have "map_of d' k = Some x"
      using nested_update_lookup_absent [OF rest] True by (simp add: map_of_setitem)
    then show ?thesis
      using step True \<open>v' = v\<close> by blast
  next
    case False
    then have "map_of rest k = Some v" and "distinct (map fst rest)"
      using Cons.prems(1,3) by (auto simp: kv)
    then obtain y where "map_of d' k = Some y" and "merged_at (setitem d k' x) k v y"
      using Cons.IH [OF _ rest] by blast
    then show ?thesis
      using False by (auto simp: merged_at_setitem_other)
  qed
qed

lemma unique_keys_distinct: "unique_keys c \<Longrightarrow> distinct (map fst c)"
  by (simp add: unique_keys_def)

lemma unique_keys_lookup: "unique_keys c \<Longrightarrow> map_of c k = Some v \<Longrightarrow> wf_val v"
  by (auto simp: unique_keys_def list_all_iff dest!: map_of_SomeD)

lemma unique_keys_sub: "unique_keys c \<Longrightarrow> map_of c k = Some (VDict sub) \<Longrightarrow> unique_keys sub"
  using unique_keys_lookup [of c k "VDict sub"] by (simp add: unique_keys_def)

lemma lookup_path_leaf: "is_leaf y \<Longrightarrow> lookup_path y q = Some w \<Longrightarrow> w = y"
  by (cases y; cases q) simp_all

lemma unique_keys_setitem:
  "unique_keys d \<Longrightarrow> wf_val x \<Longrightarrow> unique_keys (setitem d k x)"
proof (induction d)
  case Nil
  then show ?case by (simp add: setitem_def unique_keys_def)
next
  case (Cons kv d)
  obtain k' v' where kv: "kv = (k', v')" by (cases kv)
  have "unique_keys d" and "k' \<notin> fst ` set d" and "wf_val v'"
    using Cons.prems(1) by (auto simp: kv unique_keys_Cons)
  then show ?case
    using Cons.IH Cons.prems(2)
    by (auto simp: kv setitem_def unique_keys_Cons dom_update)
qed

text \<open>Merging dicts with unique keys gives a dict with unique keys.\<close>

lemma nested_update_unique_keys:
  "unique_keys d \<Longrightarrow> unique_keys u \<Longrightarrow> nested_update d u = Inr d' \<Longrightarrow> unique_keys d'"
proof (induction d u arbitrary: d' rule: nested_update.induct)
  case (1 d)
  then show ?case by simp
next
  case (2 d k v rest)
  from "2.prems"(2) have wfv: "wf_val v" and wfrest: "unique_keys rest"
    by (auto simp: unique_keys_Cons)
  show ?case
  proof (cases v)
    case (VDict sub)
    have wfsub: "unique_keys sub"
      using wfv VDict by (simp add: unique_keys_def)
    show ?thesis
    proof (cases "map_of d k")
      case None
      from "2.prems"(3) VDict None obtain m where
        m: "nested_update [] sub = Inr m" and r: "nested_update (setitem d k (VDict m)) rest = Inr d'"
        by (auto split: sum.splits)
      have "unique_keys m"
        using "2.IH"(7) [OF VDict None _ wfsub m] by (simp add: unique_keys_def)
      then have "wf_val (VDict m)"
        by (simp add: unique_keys_def)
      then have "unique_keys (setitem d k (VDict m))"
        using "2.prems"(1) by (rule unique_keys_setitem [rotated])
      then show ?thesis
        using "2.IH"(8) [OF VDict None m _ wfrest r] by simp
    next
      case (Some w)
      from "2.prems"(3) VDict Some obtain old where w: "w = VDict old"
        by (cases w) auto
      from "2.prems"(3) VDict Some w obtain m where
        m: "nested_update old sub = Inr m" and r: "nested_update (setitem d k (VDict m)) rest = Inr d'"
        by (auto split: sum.splits)
      have "unique_keys old"
        using unique_keys_sub [OF "2.prems"(1)] Some w by simp
      then have "unique_keys m"
        using "2.IH"(9) [OF VDict Some w _ wfsub m] by simp
      then have "wf_val (VDict m)"
        by (simp add: unique_keys_def)
      then have "unique_keys (setitem d k (VDict m))"
        using "2.prems"(1) by (rule unique_keys_setitem [rotated])
      then show ?thesis
        using "2.IH"(10) [OF VDict Some w m _ wfrest r] by simp
    qed
  qed (use "2.prems"(3) "2.IH"(1-6,11) [OF _ unique_keys_setitem [OF "2.prems"(1) wfv] wfrest]
       in simp_all)
qed

text \<open>A leaf of the incoming dict is a leaf of the merged dict, with its value.\<close>

lemma merge_keeps_incoming_leaf:
  "unique_keys u \<Longrightarrow> nested_update d u = Inr d' \<Longrightarrow>
   lookup_path (VDict u) p = Some v \<Longrightarrow> is_leaf v \<Longrightarrow> lookup_path (VDict d') p = Some v"
proof (induction p arbitrary: d u d')
  case Nil
  then show ?case by auto
next
  case (Cons k q)
  from Cons.prems(3) obtain y where y: "map_of u k = Some y" and yq: "lookup_path y q = Some v"
    by (auto split: option.splits)
  obtain x where x: "map_of d' k = Some x" and step: "merged_at d k y x"
    using nested_update_lookup_present [OF unique_keys_distinct [OF Cons.prems(1)] Cons.prems(2) y]
    by blast
  show ?case
  proof (cases y)
    case (VDict sub)
    from step VDict obtain m where m: "nested_update (sub_dict d k) sub = Inr m" and xm: "x = VDict m"
      by (auto simp: merged_at_def split: sum.splits)
    have "unique_keys sub"
      using unique_keys_sub [OF Cons.prems(1)] y VDict by simp
    then have "lookup_path (VDict m) q = Some v"
      using Cons.IH [OF _ m] yq VDict Cons.prems(4) by simp
    then show ?thesis
      using x xm by simp
  qed (use step x yq in \<open>auto simp: merged_at_def\<close>)
qed

text \<open>
  A leaf of the dict merged into stays, with its value, when the incoming dict has no
  leaf at its path or at a prefix of it.
\<close>

lemma merge_keeps_untouched_leaf:
  "unique_keys u \<Longrightarrow> nested_update d u = Inr d' \<Longrightarrow>
   lookup_path (VDict d) p = Some v \<Longrightarrow> is_leaf v \<Longrightarrow>
   (\<And>n. 0 < n \<Longrightarrow> n \<le> length p \<Longrightarrow> \<not> leaf_at u (take n p)) \<Longrightarrow>
   lookup_path (VDict d') p = Some v"
proof (induction p arbitrary: d u d')
  case Nil
  then show ?case by auto
next
  case (Cons k q)
  from Cons.prems(3) obtain a where a: "map_of d k = Some a" and aq: "lookup_path a q = Some v"
    by (auto split: option.splits)
  show ?case
  proof (cases "map_of u k")
    case None
    then have "k \<notin> fst ` set u"
      by (simp add: map_of_eq_None_iff)
    then have "map_of d' k = map_of d k"
      using nested_update_lookup_absent [OF Cons.prems(2)] by simp
    then show ?thesis
      using a aq by simp
  next
    case (Some y)
    have "\<not> leaf_at u (take 1 (k # q))"
      using Cons.prems(5) [of 1] by simp
    then have "\<not> is_leaf y"
      using Some by (simp add: leaf_at_def)
    then obtain sub where sub: "y = VDict sub"
      by (cases y) auto
    obtain x where x: "map_of d' k = Some x" and step: "merged_at d k y x"
      using nested_update_lookup_present [OF unique_keys_distinct [OF Cons.prems(1)] Cons.prems(2) Some]
      by blast
    from step sub a obtain m where m: "nested_update (sub_dict d k) sub = Inr m"
      and xm: "x = VDict m" and "\<not> is_leaf a"
      by (auto simp: merged_at_def split: sum.splits)
    then obtain old where old: "a = VDict old"
      by (cases a) auto
    have sd: "sub_dict d k = old"
      using a old by (simp add: sub_dict_def)
    have wfsub: "unique_keys sub"
      using unique_keys_sub [OF Cons.prems(1)] Some sub by simp
    have noleaf: "\<And>n. 0 < n \<Longrightarrow> n \<le> length q \<Longrightarrow> \<not> leaf_at sub (take n q)"
    proof -
      fix n assume "0 < n" "n \<le> length q"
      then have "\<not> leaf_at u (take (Suc n) (k # q))"
        using Cons.prems(5) [of "Suc n"] by simp
      then show "\<not> leaf_at sub (take n q)"
        using Some sub by (simp add: leaf_at_def)
    qed
    have "lookup_path (VDict m) q = Some v"
      using Cons.IH [OF wfsub _ _ Cons.prems(4) noleaf, of old m] m sd aq old by simp
    then show ?thesis
      using x xm by simp
  qed
qed

text \<open>A merge that succeeds has not met a dict where the dict merged into has a leaf.\<close>

lemma merge_no_dict_over_leaf:
  "unique_keys u \<Longrightarrow> nested_update d u = Inr d' \<Longrightarrow>
   lookup_path (VDict d) p = Some v \<Longrightarrow> is_leaf v \<Longrightarrow>
   lookup_path (VDict u) p = Some w \<Longrightarrow> is_leaf w"
proof (induction p arbitrary: d u d')
  case Nil
  then show ?case by auto
next
  case (Cons k q)
  from Cons.prems(3) obtain a where a: "map_of d k = Some a" and aq: "lookup_path a q = Some v"
    by (auto split: option.splits)
  from Cons.prems(5) obtain y where y: "map_of u k = Some y" and yq: "lookup_path y q = Some w"
    by (auto split: option.splits)
  obtain x where step: "merged_at d k y x"
    using nested_update_lookup_present [OF unique_keys_distinct [OF Cons.prems(1)] Cons.prems(2) y]
    by blast
  show ?case
  proof (cases y)
    case (VDict sub)
    from step VDict a obtain m where m: "nested_update (sub_dict d k) sub = Inr m"
      and "\<not> is_leaf a"
      by (auto simp: merged_at_def split: sum.splits)
    then obtain old where old: "a = VDict old"
      by (cases a) auto
    have sd: "sub_dict d k = old"
      using a old by (simp add: sub_dict_def)
    have wfsub: "unique_keys sub"
      using unique_keys_sub [OF Cons.prems(1)] y VDict by simp
    show ?thesis
      using Cons.IH [OF wfsub _ _ Cons.prems(4), of old m] m sd aq old yq VDict by simp
  qed (use lookup_path_leaf [OF _ yq] in simp_all)
qed

lemma not_shadowed_prefix:
  assumes "\<not> shadowed c p" and "0 < n" and "n < length p"
  shows "\<not> leaf_at c (take n p)"
  using assms by (auto simp: shadowed_def list_ex_iff)

lemma example_user_unique: "unique_keys example_user"
  by (simp add: example_user_def unique_keys_def)

lemma example_template_unique: "unique_keys (snd example_template)"
  by (simp add: example_template_def unique_keys_def)

text \<open>
  Claim C2, as the merge has it: when the pattern of a template is in the container and
  applying the template succeeds, then (1) a leaf of the defaults whose path does not run
  through a leaf of the container (it is not shadowed: where the defaults nest a dict the
  user has not put a scalar) is present afterwards, with the default's value when the
  container had no leaf at that path; and (2) every leaf the container had keeps its
  value. Containers and defaults have unique keys, as dicts do.
\<close>

theorem template_fills_gaps_and_keeps_values:
  assumes "unique_keys c" and "unique_keys defaults"
    and "nested_in_dict pattern c"
    and "apply_template (pattern, defaults) c = Inr c'"
  shows "(lookup_path (VDict defaults) p = Some v \<and> is_leaf v \<and> \<not> shadowed c p
            \<longrightarrow> leaf_at c' p \<and> (\<not> leaf_at c p \<longrightarrow> lookup_path (VDict c') p = Some v))
       \<and> (lookup_path (VDict c) q = Some w \<and> is_leaf w
            \<longrightarrow> lookup_path (VDict c') q = Some w)"
proof -
  have d0: "nested_update [] defaults = Inr defaults"
    using assms(2) by (rule nested_update_empty)
  from assms(3,4) d0 obtain m where m: "nested_update defaults c = Inr m"
    and c': "nested_update c m = Inr c'"
    by (auto simp: apply_template_def split: sum.splits)
  have wfm: "unique_keys m"
    using nested_update_unique_keys [OF assms(2,1) m] .
  have keeps: "\<And>q w. lookup_path (VDict c) q = Some w \<Longrightarrow> is_leaf w
      \<Longrightarrow> lookup_path (VDict c') q = Some w"
  proof -
    fix q w assume a: "lookup_path (VDict c) q = Some w" "is_leaf w"
    have "lookup_path (VDict m) q = Some w"
      using merge_keeps_incoming_leaf [OF assms(1) m a] .
    then show "lookup_path (VDict c') q = Some w"
      using merge_keeps_incoming_leaf [OF wfm c' _ a(2)] by simp
  qed
  have fills: "leaf_at c' p \<and> (\<not> leaf_at c p \<longrightarrow> lookup_path (VDict c') p = Some v)"
    if l: "lookup_path (VDict defaults) p = Some v" and leaf: "is_leaf v" and ns: "\<not> shadowed c p"
  proof (cases "leaf_at c p")
    case True
    then obtain w where "lookup_path (VDict c) p = Some w" and "is_leaf w"
      by (auto simp: leaf_at_def split: option.splits)
    then have "lookup_path (VDict c') p = Some w \<and> is_leaf w"
      using keeps by simp
    then show ?thesis
      using True by (simp add: leaf_at_def)
  next
    case False
    have "\<And>n. 0 < n \<Longrightarrow> n \<le> length p \<Longrightarrow> \<not> leaf_at c (take n p)"
    proof -
      fix n assume n: "0 < n" "n \<le> length p"
      show "\<not> leaf_at c (take n p)"
      proof (cases "n = length p")
        case True
        then show ?thesis using False by simp
      next
        case False
        then show ?thesis
          using not_shadowed_prefix [OF ns n(1)] n(2) by simp
      qed
    qed
    then have "lookup_path (VDict m) p = Some v"
      using merge_keeps_untouched_leaf [OF assms(1) m l leaf] by simp
    then have "lookup_path (VDict c') p = Some v"
      using merge_keeps_incoming_leaf [OF wfm c' _ leaf] by simp
    then show ?thesis
      using leaf by (simp add: leaf_at_def)
  qed
  show ?thesis
    using keeps fills by blast
qed

theorem template_fills_gaps_and_keeps_values_witness:
  "unique_keys example_user \<and> unique_keys (snd example_template)
   \<and> nested_in_dict (fst example_template) example_user
   \<and> apply_template example_template example_user
       = Inr [(''logging'', VDict [(''level'', VStr ''DEBUG''), (''style'', VStr ''%'')]),
              (''resume'', VBool False)]
   \<and> lookup_path (VDict (snd example_template)) [''logging'', ''style''] = Some (VStr ''%'')
   \<and> \<not> shadowed example_user [''logging'', ''style'']
   \<and> lookup_path (VDict [(''logging'', VDict [(''level'', VStr ''DEBUG''), (''style'', VStr ''%'')]),
                          (''resume'', VBool False)]) [''logging'', ''style''] = Some (VStr ''%'')
   \<and> lookup_path (VDict example_user) [''logging'', ''level''] = Some (VStr ''DEBUG'')
   \<and> lookup_path (VDict [(''logging'', VDict [(''level'', VStr ''DEBUG''), (''style'', VStr ''%'')]),
                          (''resume'', VBool False)]) [''logging'', ''level''] = Some (VStr ''DEBUG'')"
proof -
  have a: "nested_in_dict (fst example_template) example_user"
    by (simp add: example_template_def)
  have b: "apply_template (fst example_template, snd example_template) example_user
       = Inr [(''logging'', VDict [(''level'', VStr ''DEBUG''), (''style'', VStr ''%'')]),
              (''resume'', VBool False)]"
    by (simp add: apply_template_def example_template_def example_user_def setitem_def)
  have c: "\<not> shadowed example_user [''logging'', ''style'']"
    by (simp add: shadowed_def example_user_def leaf_at_def)
  have d: "lookup_path (VDict (snd example_template)) [''logging'', ''style''] = Some (VStr ''%'')"
    by (simp add: example_template_def)
  have e: "lookup_path (VDict example_user) [''logging'', ''level''] = Some (VStr ''DEBUG'')"
    by (simp add: example_user_def)
  have f: "\<not> leaf_at example_user [''logging'', ''style'']"
    by (simp add: example_user_def leaf_at_def)
  show ?thesis
    using template_fills_gaps_and_keeps_values [OF example_user_unique example_template_unique a b,
        of "[''logging'', ''style'']" "VStr ''%''" "[''logging'', ''level'']" "VStr ''DEBUG''"]
      example_user_unique example_template_unique a b c d e f
    by simp
qed

text \<open>
  Claim C2 as stated fails where the user has set a scalar at a key under which the
  defaults nest a dict: the pattern (empty) is in the container and the template
  applies, the user's value stays, and the leaf \<open>logging.level\<close> of the defaults is not
  present afterwards.
\<close>

theorem template_default_shadowed_counterexample:
  "nested_in_dict (fst example_template) example_scalar_logging
   \<and> apply_template example_template example_scalar_logging
       = Inr [(''logging'', VStr ''DEBUG''), (''resume'', VBool False)]
   \<and> lookup_path (VDict (snd example_template)) [''logging'', ''level''] = Some (VStr ''ERROR'')
   \<and> lookup_path (VDict [(''logging'', VStr ''DEBUG''), (''resume'', VBool False)])
        [''logging'', ''level''] = None"
  by (simp add: apply_template_def example_template_def example_scalar_logging_def setitem_def)

section \<open>A failed \<open>configure\<close>\<close>

lemma Settings_new_unique:
  "unique_keys c \<Longrightarrow> Settings_new (DictArg c) = Inr \<lparr>items = c, backup = None\<rparr>"
  by (simp add: Settings_new_def Settings_update_def nested_update_empty)

lemma example_include_unique: "unique_keys example_include"
  by (simp add: example_include_def unique_keys_def)

lemma extra_json_suffix: "any_endswith ''extra_json'' json_include_suffixes"
  by (simp add: any_endswith_def json_include_suffixes_def endswith_def)

lemma logging_suffix: "\<not> any_endswith ''logging'' json_include_suffixes"
  by (simp add: any_endswith_def json_include_suffixes_def endswith_def)

lemma resume_suffix: "\<not> any_endswith ''resume'' json_include_suffixes"
  by (simp add: any_endswith_def json_include_suffixes_def endswith_def)

lemma example_failed_configure:
  "configure 5 example_env example_unconfigured (DictArg example_include)
     = Some (Some OSError,
             example_unconfigured
               \<lparr>wrapped := Some \<lparr>items = [(''extra_json'', VStr ''missing.json''),
                                          (''logging'', VDict [(''level'', VStr ''ERROR''), (''style'', VStr ''%'')]),
                                          (''resume'', VBool False)],
                                 backup = None\<rparr>\<rparr>, [])"
proof -
  have t: "apply_templates [example_template] example_include
      = (None, [(''extra_json'', VStr ''missing.json''),
                (''logging'', VDict [(''level'', VStr ''ERROR''), (''style'', VStr ''%'')]),
                (''resume'', VBool False)])"
    by (simp add: apply_template_def example_template_def example_include_def setitem_def)
  have p: "patch_includes 5 (read_json example_env [example_template])
             [(''extra_json'', VStr ''missing.json''),
              (''logging'', VDict [(''level'', VStr ''ERROR''), (''style'', VStr ''%'')]),
              (''resume'', VBool False)]
      = Some (Some OSError,
              [(''extra_json'', VStr ''missing.json''),
               (''logging'', VDict [(''level'', VStr ''ERROR''), (''style'', VStr ''%'')]),
               (''resume'', VBool False)])"
    by (simp add: eval_nat_numeral extra_json_suffix read_json_def open_json_def example_env_def)
  have w: "wrapped example_unconfigured = None"
    "global_templates example_unconfigured = [example_template]"
    by (simp_all add: example_unconfigured_def)
  show ?thesis
    unfolding configure_def
    by (simp add: w Settings_new_unique [OF example_include_unique] t p
        del: apply_templates.simps patch_includes.simps)
qed

lemma example_refused_configure:
  "configure 5 example_env example_unconfigured (BadArg TypeError)
     = Some (Some TypeError, example_unconfigured, [])"
  by (simp add: configure_def Settings_new_def example_unconfigured_def)

lemma example_second_configure:
  "configure 5 example_env example_world (DictArg example_include)
     = Some (Some ImproperlyConfigured, example_world, [])"
  by (simp add: configure_def example_world_def)

text \<open>
  Claim C1, as the code has it. A \<open>configure\<close> that fails before \<open>self._wrapped\<close> is
  assigned leaves the wrapper exactly as it was: on a wrapper that is configured already
  the call fails at once with \<open>ImproperlyConfigured\<close>, and when the \<open>Settings\<close> object
  cannot be built from the argument the error of the constructor is raised and the
  wrapper stays unconfigured. A \<open>configure\<close> that fails after the assignment leaves the
  wrapper configured, holding the new \<open>Settings\<close> object with the items as processed up
  to the failure: the error is that of a template merge (the items are those the merges
  reached), of an include (the items are those the patch reached) or of a receiver of
  the notification (the items are the fully processed ones). The template registry is
  the same in every case.
\<close>

theorem failed_configure_leaves_wrapper_configured:
  assumes "configure fuel env w arg = Some (Some e, w', pubs)"
  shows "(configured w \<longrightarrow> w' = w \<and> e = ImproperlyConfigured \<and> pubs = [])
       \<and> (\<not> configured w \<longrightarrow>
            (\<forall>e0. Settings_new arg = Inl e0 \<longrightarrow> w' = w \<and> e = e0 \<and> pubs = [])
          \<and> (\<forall>s0. Settings_new arg = Inr s0 \<longrightarrow>
                configured w' \<and> global_templates w' = global_templates w
              \<and> (\<exists>c. wrapped w' = Some (s0\<lparr>items := c\<rparr>)
                   \<and> (apply_templates (global_templates w) (items s0) = (Some e, c)
                      \<or> (\<exists>c1. apply_templates (global_templates w) (items s0) = (None, c1)
                            \<and> (patch_includes fuel (read_json env (global_templates w)) c1
                                 = Some (Some e, c)
                               \<or> patch_includes fuel (read_json env (global_templates w)) c1
                                   = Some (None, c)
                                 \<and> fst (fst (send (os_environ env) (kind_of env) (is_alive env)
                                          (receive env PostSettingsConfigured
                                             (w\<lparr>wrapped := Some (s0\<lparr>items := c\<rparr>)\<rparr>))
                                          (post_settings_configured w) (self_obj env)))
                                     = Inl e))))))"
proof (cases "wrapped w")
  case (Some s)
  then show ?thesis
    using assms by (simp add: configure_def configured_def)
next
  case None
  show ?thesis
  proof (cases "Settings_new arg")
    case (Inl e0)
    then show ?thesis
      using assms None by (simp add: configure_def configured_def)
  next
    case (Inr s0)
    obtain te c1 where t: "apply_templates (global_templates w) (items s0) = (te, c1)"
      by (cases "apply_templates (global_templates w) (items s0)")
    show ?thesis
    proof (cases te)
      case (Some e1)
      then show ?thesis
        using assms None Inr t by (auto simp: configure_def configured_def)
    next
      case tnone: None
      show ?thesis
      proof (cases "patch_includes fuel (read_json env (global_templates w)) c1")
        case pnone: None
        then show ?thesis
          using assms None Inr t tnone by (simp add: configure_def)
      next
        case (Some pr)
        obtain pe c2 where pr: "pr = (pe, c2)" by (cases pr)
        show ?thesis
        proof (cases pe)
          case (Some e2)
          then show ?thesis
            using assms None Inr t tnone \<open>patch_includes fuel (read_json env (global_templates w)) c1 = Some pr\<close> pr
            by (auto simp: configure_def configured_def)
        next
          case penone: None
          obtain res invoked sig' where s:
            "send (os_environ env) (kind_of env) (is_alive env)
               (receive env PostSettingsConfigured (w\<lparr>wrapped := Some (s0\<lparr>items := c2\<rparr>)\<rparr>))
               (post_settings_configured w) (self_obj env) = ((res, invoked), sig')"
            by (metis prod.exhaust)
          have "raised res = Some e"
            and w': "w' = w\<lparr>wrapped := Some (s0\<lparr>items := c2\<rparr>), post_settings_configured := sig'\<rparr>"
            using assms None Inr t tnone \<open>patch_includes fuel (read_json env (global_templates w)) c1 = Some pr\<close> pr penone s
            by (simp_all add: configure_def Let_def)
          then have res: "res = Inl e"
            by (cases res) (simp_all add: raised_def)
          show ?thesis
            using None Inr t tnone \<open>patch_includes fuel (read_json env (global_templates w)) c1 = Some pr\<close> pr penone s res w'
            by (auto simp: configured_def)
        qed
      qed
    qed
  qed
qed

theorem failed_configure_leaves_wrapper_configured_witness:
  "configure 5 example_env example_world (DictArg example_include)
     = Some (Some ImproperlyConfigured, example_world, [])
   \<and> configured example_world
   \<and> configure 5 example_env example_unconfigured (BadArg TypeError)
     = Some (Some TypeError, example_unconfigured, [])
   \<and> \<not> configured example_unconfigured
   \<and> Settings_new (BadArg TypeError) = Inl TypeError
   \<and> configure 5 example_env example_unconfigured (DictArg example_include)
     = Some (Some OSError,
             example_unconfigured
               \<lparr>wrapped := Some \<lparr>items = [(''extra_json'', VStr ''missing.json''),
                                          (''logging'', VDict [(''level'', VStr ''ERROR''), (''style'', VStr ''%'')]),
                                          (''resume'', VBool False)],
                                 backup = None\<rparr>\<rparr>, [])
   \<and> Settings_new (DictArg example_include) = Inr \<lparr>items = example_include, backup = None\<rparr>
   \<and> configured (example_unconfigured
               \<lparr>wrapped := Some \<lparr>items = [(''extra_json'', VStr ''missing.json''),
                                          (''logging'', VDict [(''level'', VStr ''ERROR''), (''style'', VStr ''%'')]),
                                          (''resume'', VBool False)],
                                 backup = None\<rparr>\<rparr>)"
proof -
  have c: "configured example_world" "\<not> configured example_unconfigured"
    by (simp_all add: configured_def example_world_def example_unconfigured_def)
  have n: "Settings_new (BadArg TypeError) = Inl TypeError"
    by (simp add: Settings_new_def)
  note d = Settings_new_unique [OF example_include_unique]
  have "configured (example_unconfigured
               \<lparr>wrapped := Some \<lparr>items = [(''extra_json'', VStr ''missing.json''),
                                          (''logging'', VDict [(''level'', VStr ''ERROR''), (''style'', VStr ''%'')]),
                                          (''resume'', VBool False)],
                                 backup = None\<rparr>\<rparr>)"
    using failed_configure_leaves_wrapper_configured [OF example_failed_configure] c(2) d
    by simp
  then show ?thesis
    using failed_configure_leaves_wrapper_configured [OF example_second_configure]
      failed_configure_leaves_wrapper_configured [OF example_refused_configure]
      example_second_configure example_refused_configure example_failed_configure c n d
    by simp
qed

text \<open>
  Claim C1 as stated fails: on an unconfigured wrapper, \<open>configure\<close> with a setting that
  includes a file that cannot be opened raises \<open>OSError\<close>, and the wrapper is then
  configured, holding the container with the defaults of the template merged in.
\<close>

theorem failed_configure_counterexample:
  "\<not> configured example_unconfigured
   \<and> fst (the (configure 5 example_env example_unconfigured (DictArg example_include)))
       = Some OSError
   \<and> configured (fst (snd (the (configure 5 example_env example_unconfigured
                                   (DictArg example_include)))))
   \<and> wrapped (fst (snd (the (configure 5 example_env example_unconfigured
                                (DictArg example_include)))))
       = Some \<lparr>items = [(''extra_json'', VStr ''missing.json''),
                        (''logging'', VDict [(''level'', VStr ''ERROR''), (''style'', VStr ''%'')]),
                        (''resume'', VBool False)],
               backup = None\<rparr>"
  by (simp add: example_failed_configure configured_def) (simp add: example_unconfigured_def)

end
